theory Spec2Isabelle
  imports Complex_Main
begin

section \<open>Texts\<close>

text \<open>
  A text is a \<^typ>\<open>string\<close>: a list of characters with codes below 256, read as the
  code units of the JavaScript string. \<open>length\<close> is the string's \<open>.length\<close>.
\<close>

definition code :: "char \<Rightarrow> nat" where
  "code c = of_char c"

definition newline :: char where
  "newline = CHR 0x0A"

definition isDigit :: "char \<Rightarrow> bool" where
  "isDigit c = (48 \<le> code c \<and> code c \<le> 57)"

definition isUpper :: "char \<Rightarrow> bool" where
  "isUpper c = ((65 \<le> code c \<and> code c \<le> 90) \<or> (192 \<le> code c \<and> code c \<le> 222 \<and> code c \<noteq> 215))"

definition isWordChar :: "char \<Rightarrow> bool" where
  \<comment> \<open>the class \<open>\w\<close>: \<open>[A-Za-z0-9_]\<close>\<close>
  "isWordChar c = ((48 \<le> code c \<and> code c \<le> 57) \<or> (65 \<le> code c \<and> code c \<le> 90)
     \<or> code c = 95 \<or> (97 \<le> code c \<and> code c \<le> 122))"

definition isLineTerminator :: "char \<Rightarrow> bool" where
  "isLineTerminator c = (code c = 10 \<or> code c = 13)"

definition isSpaceChar :: "char \<Rightarrow> bool" where
  \<comment> \<open>the class \<open>\s\<close>, which is also what \<open>trim\<close> strips: tab, line feed, vertical tab,
      form feed, carriage return, space and no-break space\<close>
  "isSpaceChar c = ((9 \<le> code c \<and> code c \<le> 13) \<or> code c = 32 \<or> code c = 160)"

definition toLowerChar :: "char \<Rightarrow> char" where
  "toLowerChar c = (if isUpper c then char_of (code c + 32) else c)"

definition toUpperChar :: "char \<Rightarrow> char" where
  "toUpperChar c = (if (97 \<le> code c \<and> code c \<le> 122) \<or> (224 \<le> code c \<and> code c \<le> 254 \<and> code c \<noteq> 247)
     then char_of (code c - 32) else c)"

definition toLowerCase :: "string \<Rightarrow> string" where
  "toLowerCase s = map toLowerChar s"

definition trim :: "string \<Rightarrow> string" where
  "trim s = rev (dropWhile isSpaceChar (rev (dropWhile isSpaceChar s)))"

fun startsWith :: "string \<Rightarrow> string \<Rightarrow> bool" where
  "startsWith s [] = True"
| "startsWith [] (c # cs) = False"
| "startsWith (x # xs) (c # cs) = (x = c \<and> startsWith xs cs)"

fun includesStr :: "string \<Rightarrow> string \<Rightarrow> bool" where
  "includesStr [] t = (t = [])"
| "includesStr (x # xs) t = (startsWith (x # xs) t \<or> includesStr xs t)"

fun splitAcc :: "char \<Rightarrow> string \<Rightarrow> string \<Rightarrow> string list" where
  "splitAcc sep cur [] = [rev cur]"
| "splitAcc sep cur (c # cs) =
     (if c = sep then rev cur # splitAcc sep [] cs else splitAcc sep (c # cur) cs)"

definition split :: "char \<Rightarrow> string \<Rightarrow> string list" where
  \<comment> \<open>\<open>s.split(sep)\<close> for a one-character separator: never the empty list\<close>
  "split sep s = splitAcc sep [] s"

fun join :: "'a list \<Rightarrow> 'a list list \<Rightarrow> 'a list" where
  "join sep [] = []"
| "join sep [x] = x"
| "join sep (x # y # ys) = x @ sep @ join sep (y # ys)"

definition basename :: "string \<Rightarrow> string" where
  \<comment> \<open>\<open>path.basename\<close> on a POSIX host: the last segment, trailing slashes dropped\<close>
  "basename p = rev (takeWhile (\<lambda>c. c \<noteq> CHR ''/'') (dropWhile (\<lambda>c. c = CHR ''/'') (rev p)))"

section \<open>Regular expressions\<close>

text \<open>
  The regular expressions of the source are written as terms of \<open>rx\<close> and run by a
  backtracking matcher. A match state is the text before the position (reversed, so that
  its head is the previous character), the text after it and the captures made so far.
  \<open>ms\<close> lists the states a pattern can end in, in the order the backtracking search of
  the runtime tries them: its head is the match the runtime reports.
\<close>

datatype cls = CAny | CDot | CSpace | CWord | CDigit

fun inCls :: "cls \<Rightarrow> char \<Rightarrow> bool" where
  "inCls CAny c = True"
| "inCls CDot c = (\<not> isLineTerminator c)"
| "inCls CSpace c = isSpaceChar c"
| "inCls CWord c = isWordChar c"
| "inCls CDigit c = isDigit c"

datatype rx =
    RLit string
  | RRep cls nat bool
  | ROpt rx
  | RAlt "rx list"
  | RSeq "rx list"
  | RGrp nat rx
  | RWordB

type_synonym captures = "(nat \<times> string) list"
type_synonym mstate = "string \<times> string \<times> captures"

fun reps :: "(char \<Rightarrow> bool) \<Rightarrow> nat \<Rightarrow> bool \<Rightarrow> string \<Rightarrow> string \<Rightarrow> (string \<times> string) list" where
  "reps P mn greedy p [] = (if mn = 0 then [(p, [])] else [])"
| "reps P mn greedy p (x # xs) =
     (let more = (if P x then reps P (mn - 1) greedy (x # p) xs else [])
      in if 0 < mn then more
         else if greedy then more @ [(p, x # xs)]
         else (p, x # xs) # more)"

definition sameText :: "bool \<Rightarrow> string \<Rightarrow> string \<Rightarrow> bool" where
  "sameText icase a b = (if icase then map toUpperChar a = map toUpperChar b else a = b)"

definition atWord :: "string \<Rightarrow> bool" where
  "atWord s = (case s of [] \<Rightarrow> False | c # _ \<Rightarrow> isWordChar c)"

fun ms :: "bool \<Rightarrow> rx \<Rightarrow> mstate \<Rightarrow> mstate list" where
  "ms icase (RLit s) (p, r, c) =
     (if length s \<le> length r \<and> sameText icase (take (length s) r) s
      then [(rev (take (length s) r) @ p, drop (length s) r, c)] else [])"
| "ms icase (RRep k mn greedy) (p, r, c) =
     map (\<lambda>(p', r'). (p', r', c)) (reps (inCls k) mn greedy p r)"
| "ms icase (ROpt e) (p, r, c) =
     filter (\<lambda>(p', r', c'). length r' < length r) (ms icase e (p, r, c)) @ [(p, r, c)]"
| "ms icase (RAlt es) st = concat (map (\<lambda>e. ms icase e st) es)"
| "ms icase (RSeq es) st = fold (\<lambda>e sts. concat (map (ms icase e) sts)) es [st]"
| "ms icase (RGrp n e) (p, r, c) =
     map (\<lambda>(p', r', c'). (p', r', (n, rev (take (length p' - length p) p')) # c'))
       (ms icase e (p, r, c))"
| "ms icase RWordB (p, r, c) = (if atWord p \<noteq> atWord r then [(p, r, c)] else [])"

definition group :: "captures \<Rightarrow> nat \<Rightarrow> string option" where
  "group c n = map_of c n"

text \<open>
  \<open>search\<close> is a match without the \<open>g\<close> flag: the first position, from the left, where
  the pattern matches. \<open>scan\<close> is \<open>String.prototype.match\<close> and the \<open>exec\<close> loop with
  the \<open>g\<close> flag: the matches from left to right, each search starting where the last
  match ended (one character further after an empty match).
\<close>

fun search :: "bool \<Rightarrow> rx \<Rightarrow> string \<Rightarrow> string \<Rightarrow> (string \<times> captures) option" where
  "search icase e p [] =
     (case ms icase e (p, [], []) of
        [] \<Rightarrow> None
      | (p', r', c) # _ \<Rightarrow> Some (rev (take (length p' - length p) p'), c))"
| "search icase e p (x # xs) =
     (case ms icase e (p, x # xs, []) of
        [] \<Rightarrow> search icase e (x # p) xs
      | (p', r', c) # _ \<Rightarrow> Some (rev (take (length p' - length p) p'), c))"

function scan :: "bool \<Rightarrow> rx \<Rightarrow> string \<Rightarrow> string \<Rightarrow> (string \<times> captures) list" where
  "scan icase e p r =
     (case ms icase e (p, r, []) of
        [] \<Rightarrow> (case r of [] \<Rightarrow> [] | x # xs \<Rightarrow> scan icase e (x # p) xs)
      | (p', r', c) # _ \<Rightarrow>
          (rev (take (length p' - length p) p'), c) #
          (if length r' < length r then scan icase e p' r'
           else (case r of [] \<Rightarrow> [] | x # xs \<Rightarrow> scan icase e (x # p) xs)))"
  by pat_completeness auto
termination
  by (relation "measure (\<lambda>(icase, e, p, r). length r)") auto

section \<open>Diff engine: applyDiffToContent\<close>

definition hunkHeader :: rx where
  \<comment> \<open>\<open>/@@ -(\d+),?\d* \+(\d+),?\d* @@/\<close>\<close>
  "hunkHeader = RSeq [RLit ''@@ -'', RGrp 1 (RRep CDigit 1 True), ROpt (RLit '',''),
     RRep CDigit 0 True, RLit '' +'', RGrp 2 (RRep CDigit 1 True), ROpt (RLit '',''),
     RRep CDigit 0 True, RLit '' @@'']"

definition parseInt :: "string \<Rightarrow> int" where
  \<comment> \<open>\<open>parseInt\<close> of a string of decimal digits\<close>
  "parseInt s = foldl (\<lambda>n c. 10 * n + (int (code c) - 48)) 0 s"

fun findIndexFrom :: "nat \<Rightarrow> int \<Rightarrow> string \<Rightarrow> string list \<Rightarrow> nat option" where
  \<comment> \<open>\<open>result.findIndex((l, idx) => idx >= lineOffset && l === content)\<close>, \<open>idx\<close> counting
      from the first argument\<close>
  "findIndexFrom idx lineOffset content [] = None"
| "findIndexFrom idx lineOffset content (l # ls) =
     (if lineOffset \<le> int idx \<and> l = content then Some idx
      else findIndexFrom (Suc idx) lineOffset content ls)"

definition spliceStart :: "int \<Rightarrow> nat \<Rightarrow> nat" where
  \<comment> \<open>the start index of \<open>splice\<close>: a negative one counts from the end, and both are clamped\<close>
  "spliceStart start len = (if start < 0 then nat (max (int len + start) 0) else min (nat start) len)"

definition spliceRemove :: "nat \<Rightarrow> 'a list \<Rightarrow> 'a list" where
  \<comment> \<open>\<open>result.splice(index, 1)\<close>\<close>
  "spliceRemove i xs = take i xs @ drop (Suc i) xs"

definition spliceInsert :: "int \<Rightarrow> 'a \<Rightarrow> 'a list \<Rightarrow> 'a list" where
  \<comment> \<open>\<open>result.splice(lineOffset, 0, content)\<close>\<close>
  "spliceInsert start x xs = (let i = spliceStart start (length xs) in take i xs @ [x] @ drop i xs)"

definition diffStep :: "string list \<times> int \<Rightarrow> string \<Rightarrow> string list \<times> int" where
  \<comment> \<open>one turn of the loop over the diff's lines; the state is \<open>(result, lineOffset)\<close>\<close>
  "diffStep st line =
     (let (result, lineOffset) = st in
      if startsWith line ''@@'' then
        (case search False hunkHeader [] line of
           None \<Rightarrow> (result, lineOffset)
         | Some (m, caps) \<Rightarrow>
             (case group caps 1 of
                None \<Rightarrow> (result, lineOffset)
              | Some digits \<Rightarrow> (result, parseInt digits - 1)))
      else if startsWith line ''-'' then
        (case findIndexFrom 0 lineOffset (drop 1 line) result of
           None \<Rightarrow> (result, lineOffset)
         | Some index \<Rightarrow> (spliceRemove index result, lineOffset))
      else if startsWith line ''+'' then
        (spliceInsert lineOffset (drop 1 line) result, lineOffset + 1)
      else (result, lineOffset))"

definition applyDiffToContent :: "string \<Rightarrow> string \<Rightarrow> string" where
  "applyDiffToContent originalContent diffText =
     join [newline] (fst (foldl diffStep (split newline originalContent, 0) (split newline diffText)))"

section \<open>JSON values\<close>

text \<open>
  The values \<open>JSON.parse\<close> builds. An escape \<open>\uXXXX\<close> can put any code unit into a
  string, so the strings of a value, and the texts built from them, are lists of code
  units; \<open>units\<close> reads a text as one. A number keeps its lexeme: the runtime reads it as
  an IEEE double, which is not modelled, so whatever depends on the double (its string,
  and whether it is zero) goes through the parameter \<open>showNumber\<close>, the runtime's
  conversion of the number a lexeme denotes to a string. An object keeps its members in the
  order of the text; of two members with one key the later one is the property.
\<close>

type_synonym ustring = "nat list"

definition units :: "string \<Rightarrow> ustring" where
  "units s = map code s"

datatype json =
    JNull
  | JBool bool
  | JNum string
  | JStr ustring
  | JArr "json list"
  | JObj "(ustring \<times> json) list"

definition jstr :: "string \<Rightarrow> json" where
  \<comment> \<open>the string value that holds a text\<close>
  "jstr s = JStr (units s)"

definition field :: "string \<Rightarrow> json \<Rightarrow> ustring \<times> json" where
  \<comment> \<open>a member of an object\<close>
  "field key v = (units key, v)"

definition getProp :: "json \<Rightarrow> string \<Rightarrow> json option" where
  \<comment> \<open>\<open>v.key\<close> for a value other than \<open>null\<close> and a key that no prototype defines
      (\<open>message\<close>, \<open>content\<close>, \<open>done\<close>, \<open>response\<close>); \<open>None\<close> is \<open>undefined\<close>\<close>
  "getProp v key = (case v of JObj members \<Rightarrow> map_of (rev members) (units key) | _ \<Rightarrow> None)"

definition truthy :: "(string \<Rightarrow> string) \<Rightarrow> json \<Rightarrow> bool" where
  "truthy showNumber v =
     (case v of
        JNull \<Rightarrow> False
      | JBool b \<Rightarrow> b
      | JNum lexeme \<Rightarrow> showNumber lexeme \<noteq> ''0''
      | JStr s \<Rightarrow> s \<noteq> []
      | JArr xs \<Rightarrow> True
      | JObj members \<Rightarrow> True)"

definition truthyProp :: "(string \<Rightarrow> string) \<Rightarrow> json option \<Rightarrow> bool" where
  "truthyProp showNumber v = (case v of None \<Rightarrow> False | Some x \<Rightarrow> truthy showNumber x)"

fun toStringJS :: "(string \<Rightarrow> string) \<Rightarrow> json \<Rightarrow> ustring option" where
  \<comment> \<open>the string a value becomes when it is appended to a string; \<open>None\<close> is the TypeError
      for an object whose own \<open>toString\<close> property hides the prototype's method\<close>
  "toStringJS showNumber JNull = Some (units ''null'')"
| "toStringJS showNumber (JBool b) = Some (units (if b then ''true'' else ''false''))"
| "toStringJS showNumber (JNum lexeme) = Some (units (showNumber lexeme))"
| "toStringJS showNumber (JStr s) = Some s"
| "toStringJS showNumber (JArr xs) =
     (let parts = map (\<lambda>x. if x = JNull then Some [] else toStringJS showNumber x) xs
      in if None \<in> set parts then None else Some (join (units '','') (map the parts)))"
| "toStringJS showNumber (JObj members) =
     (if map_of members (units ''toString'') = None then Some (units ''[object Object]'') else None)"

subsection \<open>JSON.parse\<close>

definition isJsonSpace :: "char \<Rightarrow> bool" where
  "isJsonSpace c = (code c = 9 \<or> code c = 10 \<or> code c = 13 \<or> code c = 32)"

definition hexDigit :: "char \<Rightarrow> nat option" where
  "hexDigit c =
     (if 48 \<le> code c \<and> code c \<le> 57 then Some (code c - 48)
      else if 65 \<le> code c \<and> code c \<le> 70 then Some (code c - 55)
      else if 97 \<le> code c \<and> code c \<le> 102 then Some (code c - 87)
      else None)"

definition hex4 :: "string \<Rightarrow> nat option" where
  "hex4 s =
     (case map hexDigit s of
        [Some a, Some b, Some c, Some d] \<Rightarrow> Some (((a * 16 + b) * 16 + c) * 16 + d)
      | _ \<Rightarrow> None)"

definition unescape :: "char \<Rightarrow> char option" where
  "unescape e =
     (if e = CHR 0x22 then Some (CHR 0x22)
      else if e = CHR 0x5C then Some (CHR 0x5C)
      else if e = CHR ''/'' then Some (CHR ''/'')
      else if e = CHR ''b'' then Some (CHR 0x08)
      else if e = CHR ''f'' then Some (CHR 0x0C)
      else if e = CHR ''n'' then Some (CHR 0x0A)
      else if e = CHR ''r'' then Some (CHR 0x0D)
      else if e = CHR ''t'' then Some (CHR 0x09)
      else None)"

function lexString :: "ustring \<Rightarrow> string \<Rightarrow> (ustring \<times> string) option" where
  \<comment> \<open>the text after an opening quote: the string it holds, as code units, and the text
      after the closing quote; the first argument holds the units read so far, last first\<close>
  "lexString acc [] = None"
| "lexString acc (c # cs) =
     (if c = CHR 0x22 then Some (rev acc, cs)
      else if c = CHR 0x5C then
        (case cs of
           [] \<Rightarrow> None
         | e # es \<Rightarrow>
             if e = CHR ''u'' then
               (case hex4 (take 4 es) of
                  None \<Rightarrow> None
                | Some n \<Rightarrow> lexString (n # acc) (drop 4 es))
             else
               (case unescape e of
                  None \<Rightarrow> None
                | Some ch \<Rightarrow> lexString (code ch # acc) es))
      else if code c < 32 then None
      else lexString (code c # acc) cs)"
  by pat_completeness auto
termination
  by (relation "measure (\<lambda>(acc, s). length s)") auto

definition lexDigits :: "string \<Rightarrow> (string \<times> string) option" where
  \<comment> \<open>one digit or more\<close>
  "lexDigits s = (if takeWhile isDigit s = [] then None else Some (takeWhile isDigit s, dropWhile isDigit s))"

definition lexNumber :: "string \<Rightarrow> (string \<times> string) option" where
  \<comment> \<open>\<open>-?(0|[1-9][0-9]*)(\.[0-9]+)?([eE][+-]?[0-9]+)?\<close>: the lexeme and the text after it\<close>
  "lexNumber s =
     (let (sign, s1) = (if startsWith s ''-'' then (''-'', drop 1 s) else ([], s)) in
      case (if startsWith s1 ''0'' then Some (''0'', drop 1 s1) else lexDigits s1) of
        None \<Rightarrow> None
      | Some (ip, s2) \<Rightarrow>
          (case (if startsWith s2 ''.'' then map_option (\<lambda>(d, r). (''.'' @ d, r)) (lexDigits (drop 1 s2))
                 else Some ([], s2)) of
             None \<Rightarrow> None
           | Some (fp, s3) \<Rightarrow>
               (case (if startsWith s3 ''e'' \<or> startsWith s3 ''E'' then
                        (let s4 = drop 1 s3;
                             (es, s5) = (if startsWith s4 ''+'' \<or> startsWith s4 ''-''
                                         then (take 1 s4, drop 1 s4) else ([], s4))
                         in map_option (\<lambda>(d, r). (take 1 s3 @ es @ d, r)) (lexDigits s5))
                      else Some ([], s3)) of
                  None \<Rightarrow> None
                | Some (ep, s6) \<Rightarrow> Some (sign @ ip @ fp @ ep, s6))))"

datatype tok = TLBrace | TRBrace | TLBrack | TRBrack | TColon | TComma | TVal json

function tokenize :: "string \<Rightarrow> tok list option" where
  "tokenize [] = Some []"
| "tokenize (c # cs) =
     (if isJsonSpace c then tokenize cs
      else if c = CHR ''{'' then map_option ((#) TLBrace) (tokenize cs)
      else if c = CHR ''}'' then map_option ((#) TRBrace) (tokenize cs)
      else if c = CHR ''['' then map_option ((#) TLBrack) (tokenize cs)
      else if c = CHR '']'' then map_option ((#) TRBrack) (tokenize cs)
      else if c = CHR '':'' then map_option ((#) TColon) (tokenize cs)
      else if c = CHR '','' then map_option ((#) TComma) (tokenize cs)
      else if c = CHR 0x22 then
        (case lexString [] cs of
           None \<Rightarrow> None
         | Some (s, rest) \<Rightarrow>
             if length rest < length (c # cs) then map_option ((#) (TVal (JStr s))) (tokenize rest)
             else None)
      else if c = CHR ''-'' \<or> isDigit c then
        (case lexNumber (c # cs) of
           None \<Rightarrow> None
         | Some (lexeme, rest) \<Rightarrow>
             if length rest < length (c # cs) then map_option ((#) (TVal (JNum lexeme))) (tokenize rest)
             else None)
      else if startsWith (c # cs) ''true'' then map_option ((#) (TVal (JBool True))) (tokenize (drop 3 cs))
      else if startsWith (c # cs) ''false'' then map_option ((#) (TVal (JBool False))) (tokenize (drop 4 cs))
      else if startsWith (c # cs) ''null'' then map_option ((#) (TVal JNull)) (tokenize (drop 3 cs))
      else None)"
  by pat_completeness auto
termination
  by (relation "measure length") auto

datatype frame = FArr "json list" | FObj "(ustring \<times> json) list" "ustring option"

datatype expect = EValue | EValueOrClose | EKeyOrClose | EKey | EColon | ECommaOrClose

datatype pstate = Parsing "frame list" expect | Parsed json | Failed

definition putValue :: "json \<Rightarrow> frame list \<Rightarrow> pstate" where
  \<comment> \<open>a complete value: the document itself, the next element of the open array, or the
      value of the pending key of the open object\<close>
  "putValue v stack =
     (case stack of
        [] \<Rightarrow> Parsed v
      | FArr xs # st \<Rightarrow> Parsing (FArr (v # xs) # st) ECommaOrClose
      | FObj members (Some k) # st \<Rightarrow> Parsing (FObj ((k, v) # members) None # st) ECommaOrClose
      | FObj members None # st \<Rightarrow> Failed)"

definition closeFrame :: "tok \<Rightarrow> frame list \<Rightarrow> pstate" where
  "closeFrame t stack =
     (case (t, stack) of
        (TRBrack, FArr xs # st) \<Rightarrow> putValue (JArr (rev xs)) st
      | (TRBrace, FObj members None # st) \<Rightarrow> putValue (JObj (rev members)) st
      | _ \<Rightarrow> Failed)"

definition openOrValue :: "tok \<Rightarrow> frame list \<Rightarrow> pstate" where
  "openOrValue t stack =
     (case t of
        TVal v \<Rightarrow> putValue v stack
      | TLBrack \<Rightarrow> Parsing (FArr [] # stack) EValueOrClose
      | TLBrace \<Rightarrow> Parsing (FObj [] None # stack) EKeyOrClose
      | _ \<Rightarrow> Failed)"

definition keyTok :: "tok \<Rightarrow> frame list \<Rightarrow> pstate" where
  "keyTok t stack =
     (case (t, stack) of
        (TVal (JStr k), FObj members None # st) \<Rightarrow> Parsing (FObj members (Some k) # st) EColon
      | _ \<Rightarrow> Failed)"

definition parseStep :: "tok \<Rightarrow> pstate \<Rightarrow> pstate" where
  "parseStep t ps =
     (case ps of
        Parsed v \<Rightarrow> Failed
      | Failed \<Rightarrow> Failed
      | Parsing stack EValue \<Rightarrow> openOrValue t stack
      | Parsing stack EValueOrClose \<Rightarrow> (if t = TRBrack then closeFrame t stack else openOrValue t stack)
      | Parsing stack EKeyOrClose \<Rightarrow> (if t = TRBrace then closeFrame t stack else keyTok t stack)
      | Parsing stack EKey \<Rightarrow> keyTok t stack
      | Parsing stack EColon \<Rightarrow> (if t = TColon then Parsing stack EValue else Failed)
      | Parsing stack ECommaOrClose \<Rightarrow>
          (if t = TComma then
             (case stack of
                FArr xs # st \<Rightarrow> Parsing stack EValue
              | FObj members k # st \<Rightarrow> Parsing stack EKey
              | [] \<Rightarrow> Failed)
           else closeFrame t stack))"

definition JSON_parse :: "string \<Rightarrow> json option" where
  \<comment> \<open>\<open>None\<close> is the SyntaxError\<close>
  "JSON_parse s =
     (case tokenize s of
        None \<Rightarrow> None
      | Some toks \<Rightarrow> (case fold parseStep toks (Parsing [] EValue) of Parsed v \<Rightarrow> Some v | _ \<Rightarrow> None))"

section \<open>Keyword extractor\<close>

definition newSet :: "'a list \<Rightarrow> 'a list" where
  \<comment> \<open>\<open>[...new Set(xs)]\<close>: the first occurrence of every element, in order\<close>
  "newSet xs = rev (remdups (rev xs))"

definition keywordPattern :: rx where
  \<comment> \<open>\<open>/\b\w{3,}\b/g\<close>\<close>
  "keywordPattern = RSeq [RWordB, RRep CWord 3 True, RWordB]"

definition stopWords :: "string list" where
  "stopWords = [''the'', ''and'', ''for'', ''are'', ''but'', ''not'', ''you'', ''all'', ''can'',
     ''had'', ''her'', ''was'', ''one'', ''our'', ''out'', ''day'', ''get'', ''has'', ''him'',
     ''his'', ''how'', ''its'', ''may'', ''new'', ''now'', ''old'', ''see'', ''two'', ''who'',
     ''boy'', ''did'', ''she'', ''use'', ''way'', ''what'', ''when'', ''with'']"

definition extractKeywords :: "string \<Rightarrow> string list" where
  "extractKeywords text =
     (let words = map fst (scan False keywordPattern [] (toLowerCase text))
      in filter (\<lambda>word. word \<notin> set stopWords) (newSet words))"

section \<open>Relevance scorer and context assembler\<close>

text \<open>
  The workspace, as the assembler sees it. \<open>workspaceFiles\<close> is what \<open>findFiles\<close> answers to
  the assembler's query: the paths in enumeration order, each with the text
  \<open>openTextDocument\<close> reads (\<open>None\<close> when it throws); it is \<open>None\<close> when \<open>findFiles\<close> throws.
  \<open>activeTextEditor\<close> is the open document's file name and text.

  \<open>_scoreLineRelevance\<close> computes in IEEE doubles, which are not modelled. The assembler
  only compares its values, so the line score is a parameter of the model: any function
  into the reals.
\<close>

record host =
  workspaceFolders :: bool
  workspaceFiles :: "(string \<times> string option) list option"
  activeTextEditor :: "(string \<times> string) option"

type_synonym lineScore = "string \<Rightarrow> string list \<Rightarrow> nat \<Rightarrow> nat \<Rightarrow> real"

definition sortDescBy :: "('a \<Rightarrow> 'k::linorder) \<Rightarrow> 'a list \<Rightarrow> 'a list" where
  \<comment> \<open>\<open>xs.sort((a, b) => key(b) - key(a))\<close>: descending, and stable as the runtime's sort is\<close>
  "sortDescBy key xs = rev (sort_key key (rev xs))"

definition truncateTo :: "int \<Rightarrow> string \<Rightarrow> string" where
  \<comment> \<open>\<open>content.length > n ? content.substring(0, n) + '...' : content\<close>\<close>
  "truncateTo n content = (if n < int (length content) then take (nat n) content @ ''...'' else content)"

definition codePatterns :: "rx list" where
  \<comment> \<open>the five patterns of \<open>_extractCodeKeywords\<close>, each with the flags \<open>gi\<close>\<close>
  "codePatterns =
     [RSeq [RWordB,
            RGrp 1 (RAlt [RLit ''function'', RLit ''class'', RLit ''interface'', RLit ''type'',
                          RLit ''const'', RLit ''let'', RLit ''var'', RLit ''import'', RLit ''export'']),
            RRep CSpace 1 True, RGrp 2 (RRep CWord 1 True)],
      RSeq [RWordB,
            RGrp 1 (RAlt [RLit ''component'', RLit ''service'', RLit ''controller'', RLit ''model'',
                          RLit ''util'', RLit ''helper'', RLit ''config'']),
            RWordB],
      RSeq [RLit ''.'',
            RGrp 1 (RAlt [RLit ''ts'', RLit ''js'', RLit ''py'', RLit ''rs'', RLit ''go'', RLit ''jsx'',
                          RLit ''tsx'', RLit ''cpp'', RLit ''c'', RLit ''java'', RLit ''json'',
                          RLit ''yml'', RLit ''yaml'']),
            RWordB],
      RSeq [RWordB,
            RGrp 1 (RAlt [RLit ''api'', RLit ''endpoint'', RLit ''route'', RLit ''handler'',
                          RLit ''middleware'']),
            RWordB],
      RSeq [RWordB,
            RGrp 1 (RAlt [RLit ''test'', RLit ''spec'', RLit ''mock'', RLit ''fixture'']),
            RWordB]]"

definition extractCodeKeywords :: "string \<Rightarrow> string list" where
  "extractCodeKeywords text =
     (let keywords = concat (map (\<lambda>pattern.
            map (\<lambda>(m, c). filter isWordChar (toLowerCase m)) (scan True pattern [] text))
          codePatterns)
      in filter (\<lambda>k. 2 < length k) (newSet keywords))"

definition importantFile :: "string \<Rightarrow> bool" where
  "importantFile fileName =
     (includesStr fileName ''package.json'' \<or> includesStr fileName ''readme''
      \<or> includesStr fileName ''config'' \<or> includesStr fileName ''index''
      \<or> includesStr fileName ''main'' \<or> includesStr fileName ''app'')"

definition scoreFile :: "string list \<Rightarrow> string list \<Rightarrow> string \<Rightarrow> nat" where
  "scoreFile keywords codeKeywords fsPath =
     (let fileName = toLowerCase (basename fsPath); filePath = toLowerCase fsPath
      in 10 * length (filter (\<lambda>k. includesStr fileName k \<or> includesStr filePath k) keywords)
         + 15 * length (filter (\<lambda>k. includesStr fileName k \<or> includesStr filePath k) codeKeywords)
         + (if importantFile fileName then 5 else 0))"

definition topFiles :: "string \<Rightarrow> (string \<times> string option) list \<Rightarrow> (string \<times> string option) list" where
  \<comment> \<open>the five best-scoring files of those that score at all, or else the first three\<close>
  "topFiles userMsg files =
     (let keywords = extractKeywords userMsg;
          codeKeywords = extractCodeKeywords userMsg;
          scoredFiles = filter (\<lambda>(fsPath, doc). 0 < scoreFile keywords codeKeywords fsPath) files;
          top = take 5 (sortDescBy (\<lambda>(fsPath, doc). scoreFile keywords codeKeywords fsPath) scoredFiles)
      in if top = [] then take 3 files else top)"

fun addFiles :: "(string \<times> string option) list \<Rightarrow> string \<times> int \<Rightarrow> string \<times> int" where
  \<comment> \<open>the loop over the selected files; the state is \<open>(context, remainingLength)\<close>\<close>
  "addFiles [] st = st"
| "addFiles ((fsPath, doc) # rest) (ctx, remainingLength) =
     (if remainingLength < 200 then (ctx, remainingLength)
      else case doc of
        None \<Rightarrow> addFiles rest (ctx, remainingLength)
      | Some content \<Rightarrow>
          (let fileName = basename fsPath;
               maxFileContent = min (remainingLength - 50) 800;
               truncatedContent = truncateTo maxFileContent content;
               fileSection = [newline] @ ''--- '' @ fileName @ '' ---'' @ [newline]
                              @ truncatedContent @ [newline]
           in if int (length fileSection) \<le> remainingLength
              then addFiles rest (ctx @ fileSection, remainingLength - int (length fileSection))
              else addFiles rest (ctx, remainingLength)))"

definition getRelevantCodebaseContext :: "host \<Rightarrow> string \<Rightarrow> int \<Rightarrow> string" where
  "getRelevantCodebaseContext h userMsg maxLength =
     (if \<not> workspaceFolders h \<or> maxLength < 100 then []
      else case workspaceFiles h of
        None \<Rightarrow> []
      | Some files \<Rightarrow>
          (let ctx = ''CODEBASE CONTEXT:'' @ [newline];
               remainingLength = maxLength - int (length ctx);
               (ctx, remainingLength) = addFiles (topFiles userMsg files) (ctx, remainingLength)
           in if 50 < length ctx then ctx else []))"

definition getCurrentFileContext :: "host \<Rightarrow> string" where
  "getCurrentFileContext h =
     (case activeTextEditor h of
        None \<Rightarrow> []
      | Some (fileName, content) \<Rightarrow>
          ''CURRENT FILE CONTEXT:'' @ [newline] @ ''--- '' @ basename fileName @ '' ---'' @ [newline]
            @ truncateTo 1500 content)"

definition addLine :: "int \<Rightarrow> string \<Rightarrow> string \<Rightarrow> string" where
  \<comment> \<open>one turn of the loop over the scored lines\<close>
  "addLine maxLength result line =
     (if int (length result) + int (length line) + 1 \<le> maxLength
      then result @ (if result \<noteq> [] then [newline] else []) @ line
      else result)"

definition getRelevantContext :: "lineScore \<Rightarrow> string list \<Rightarrow> string \<Rightarrow> int \<Rightarrow> string" where
  "getRelevantContext scoreLineRelevance history currentMsg maxLength =
     (if history = [] then []
      else
        (let fullHistory = join [newline] history in
         if int (length fullHistory) \<le> maxLength then fullHistory
         else
           (let lines = split newline fullHistory;
                keywords = extractKeywords currentMsg;
                scoredLines = map (\<lambda>(line, index). (line, scoreLineRelevance line keywords index (length lines)))
                                (zip lines [0 ..< length lines]);
                sorted = sortDescBy snd scoredLines
            in foldl (addLine maxLength) [] (map fst sorted))))"

definition systemPrompt :: string where
  "systemPrompt =
     ''You are AICA, an AI coding assistant integrated into VSCode. You can:\<newline>'' @
     ''- Review and analyze code\<newline>'' @
     ''- Read/write files using /read and /write commands\<newline>'' @
     ''- Execute terminal commands using /exec\<newline>'' @
     ''- List workspace files using /list\<newline>'' @
     ''- Apply code changes with diff previews\<newline>'' @
     ''- Provide streaming responses for better UX\<newline>'' @
     ''\<newline>'' @
     ''IMPORTANT: When suggesting code changes, you can trigger a preview interface similar to Cline by formatting your response with:\<newline>'' @
     ''\<newline>'' @
     ''**SUGGESTED CHANGES FOR [filename]:**\<newline>'' @
     ''[Brief description of what you're changing]\<newline>'' @
     ''\<newline>'' @
     ''```[language]\<newline>'' @
     ''[Complete new file content]\<newline>'' @
     ''```\<newline>'' @
     ''\<newline>'' @
     ''This will automatically show a side-by-side diff preview where the user can see original vs modified code and choose to apply or cancel the changes.\<newline>'' @
     ''\<newline>'' @
     ''You have access to the current workspace and can see relevant files automatically.\<newline>'' @
     ''Be helpful, concise, and focus on practical solutions based on the codebase context.''"

definition preamble :: string where
  "preamble = systemPrompt @ [newline, newline]"

record prompt =
  contextWindow :: string
  codebaseSection :: string
  currentFileSection :: string
  historySection :: string

definition assemblePrompt :: "lineScore \<Rightarrow> host \<Rightarrow> string list \<Rightarrow> string \<Rightarrow> prompt" where
  \<comment> \<open>\<open>_buildChatPrompt\<close>, which also tells the sections it included (empty when left out).
      \<open>Math.floor(remainingLength * 0.6)\<close> is \<open>(remainingLength * 3) div 5\<close>: for an integer
      below \<open>2^50\<close> in size the rounded product has the same floor.\<close>
  "assemblePrompt scoreLineRelevance h chatHistory userMsg =
     (let window0 = preamble;
          remaining0 = 12000 - int (length window0) - int (length userMsg) - 100;
          codebaseContext = getRelevantCodebaseContext h userMsg ((remaining0 * 3) div 5);
          (window1, remaining1) =
            (if codebaseContext \<noteq> []
             then (window0 @ codebaseContext @ [newline, newline], remaining0 - int (length codebaseContext))
             else (window0, remaining0));
          currentFileContext = getCurrentFileContext h;
          addCurrent = (currentFileContext \<noteq> [] \<and> int (length currentFileContext) + 100 < remaining1);
          (window2, remaining2) =
            (if addCurrent
             then (window1 @ currentFileContext @ [newline, newline], remaining1 - int (length currentFileContext))
             else (window1, remaining1));
          relevantHistory = getRelevantContext scoreLineRelevance chatHistory userMsg remaining2
      in \<lparr>contextWindow = window2 @ relevantHistory @ [newline] @ ''User: '' @ userMsg @ [newline] @ ''AICA:'',
          codebaseSection = codebaseContext,
          currentFileSection = (if addCurrent then currentFileContext else []),
          historySection = relevantHistory\<rparr>)"

definition buildChatPrompt :: "lineScore \<Rightarrow> host \<Rightarrow> string list \<Rightarrow> string \<Rightarrow> string" where
  "buildChatPrompt scoreLineRelevance h chatHistory userMsg =
     contextWindow (assemblePrompt scoreLineRelevance h chatHistory userMsg)"

section \<open>Host and configuration\<close>

text \<open>
  The editor, the file system and the network are collaborators of the extension: their
  answers are parameters of the model and what the extension does to them is recorded in
  its results. A promise is \<open>Pending\<close> until its first settlement, and keeps it.
\<close>

record config =
  cfgModel :: "string option"
  cfgApiUrl :: "string option"
  cfgChatHistory :: "bool option"

definition getModel :: "config \<Rightarrow> string" where
  \<comment> \<open>\<open>config.get<string>('model', 'codellama')\<close>\<close>
  "getModel cfg = (case cfgModel cfg of None \<Rightarrow> ''codellama'' | Some m \<Rightarrow> m)"

definition getApiUrl :: "config \<Rightarrow> string" where
  \<comment> \<open>\<open>config.get<string>('apiUrl', 'http://localhost:11434')\<close>\<close>
  "getApiUrl cfg = (case cfgApiUrl cfg of None \<Rightarrow> ''http://localhost:11434'' | Some u \<Rightarrow> u)"

datatype notice = ShowWarning string | ShowError string | ShowInformation string

datatype 'a promise = Pending | Resolved 'a | Rejected string

definition settle :: "'a promise \<Rightarrow> 'a promise \<Rightarrow> 'a promise" where
  \<comment> \<open>\<open>resolve\<close> and \<open>reject\<close>: only the first call settles the promise\<close>
  "settle p outcome = (case p of Pending \<Rightarrow> outcome | _ \<Rightarrow> p)"

section \<open>Model client\<close>

datatype reply = PostThrows "string option" | PostReturns json

record 'a call =
  returned :: 'a
  requests :: "(string \<times> json) list"
  notices :: "notice list"

definition errorMessage :: "string option \<Rightarrow> string" where
  \<comment> \<open>\<open>error instanceof Error ? error.message : 'Unknown error'\<close>\<close>
  "errorMessage e = (case e of None \<Rightarrow> ''Unknown error'' | Some m \<Rightarrow> m)"

definition invalidUrlWarning :: "string \<Rightarrow> notice" where
  "invalidUrlWarning apiUrl =
     ShowWarning (''AICA: Invalid apiUrl '' @ [CHR 0x27] @ apiUrl @ [CHR 0x27] @ ''. Use http://<IP>:<port>'')"

definition generateBody :: "string \<Rightarrow> string \<Rightarrow> json" where
  "generateBody model prompt =
     JObj [field ''model'' (jstr model), field ''prompt'' (jstr prompt), field ''stream'' (JBool False),
           field ''options'' (JObj [field ''temperature'' (JNum ''0.2'')])]"

definition getOllamaReview ::
  "config \<Rightarrow> (string \<Rightarrow> json \<Rightarrow> reply) \<Rightarrow> string \<Rightarrow> string \<Rightarrow> (json option) call" where
  \<comment> \<open>the value returned is \<open>response.data.response\<close>, whatever the server sent there
      (\<open>None\<close> is \<open>undefined\<close>); reading it off a \<open>null\<close> body throws into the \<open>catch\<close>\<close>
  "getOllamaReview cfg post codeText instruction =
     (let model = getModel cfg; apiUrl = getApiUrl cfg in
      if \<not> startsWith apiUrl ''http'' then
        \<lparr>returned = Some (jstr ''Invalid Ollama URL.''), requests = [],
         notices = [invalidUrlWarning apiUrl]\<rparr>
      else
        (let prompt = instruction @ [newline, newline] @ ''Code:'' @ [newline] @ codeText;
             url = apiUrl @ ''/api/generate'';
             body = generateBody model prompt;
             fallback = Some (jstr (''Error connecting to Ollama. Ensure the server is running at '' @ apiUrl))
         in case post url body of
              PostThrows e \<Rightarrow>
                \<lparr>returned = fallback, requests = [(url, body)],
                 notices = [ShowError (''AICA: Ollama error - '' @ errorMessage e)]\<rparr>
            | PostReturns JNull \<Rightarrow>
                \<lparr>returned = fallback, requests = [(url, body)],
                 notices = [ShowError (''AICA: Ollama error - '' @ errorMessage (Some ''Cannot read properties of null''))]\<rparr>
            | PostReturns dat \<Rightarrow>
                \<lparr>returned = getProp dat ''response'', requests = [(url, body)], notices = []\<rparr>))"

datatype streamEvent = Data string | End | StreamError string

datatype transport = ChatPostThrows "string option" | ChatStream "streamEvent list"

datatype post = StreamingUpdate ustring ustring | StreamingComplete

record stream =
  fullResponse :: ustring
  outcome :: "ustring promise"
  posts :: "post list"

definition chatBody :: "string \<Rightarrow> string \<Rightarrow> json" where
  "chatBody model prompt =
     JObj [field ''model'' (jstr model),
           field ''messages'' (JArr [JObj [field ''role'' (jstr ''user''), field ''content'' (jstr prompt)]]),
           field ''stream'' (JBool True),
           field ''options'' (JObj [field ''temperature'' (JNum ''0.2'')])]"

definition messageContent :: "(string \<Rightarrow> string) \<Rightarrow> json \<Rightarrow> json option" where
  \<comment> \<open>\<open>data.message.content\<close> when \<open>data.message && data.message.content\<close> holds\<close>
  "messageContent showNumber dat =
     (case getProp dat ''message'' of
        None \<Rightarrow> None
      | Some m \<Rightarrow>
          if truthy showNumber m \<and> truthyProp showNumber (getProp m ''content'')
          then getProp m ''content'' else None)"

definition resolveIfDone :: "(string \<Rightarrow> string) \<Rightarrow> json \<Rightarrow> stream \<Rightarrow> stream" where
  \<comment> \<open>\<open>if (data.done) resolve(fullResponse)\<close>\<close>
  "resolveIfDone showNumber dat st =
     (if truthyProp showNumber (getProp dat ''done'')
      then st\<lparr>outcome := settle (outcome st) (Resolved (fullResponse st))\<rparr> else st)"

definition onLine :: "(string \<Rightarrow> string) \<Rightarrow> bool \<Rightarrow> stream \<Rightarrow> string \<Rightarrow> stream" where
  \<comment> \<open>the body of the loop over a chunk's lines; every exception of the \<open>try\<close> block (the
      SyntaxError of \<open>JSON.parse\<close>, the TypeError of reading \<open>null.message\<close> or of appending
      an object that cannot become a string) leaves the state as it was\<close>
  "onLine showNumber webview st line =
     (case JSON_parse line of
        None \<Rightarrow> st
      | Some JNull \<Rightarrow> st
      | Some dat \<Rightarrow>
          (case messageContent showNumber dat of
             None \<Rightarrow> resolveIfDone showNumber dat st
           | Some content \<Rightarrow>
               (case toStringJS showNumber content of
                  None \<Rightarrow> st
                | Some text \<Rightarrow>
                    (let full = fullResponse st @ text
                     in resolveIfDone showNumber dat
                          (st\<lparr>fullResponse := full,
                              posts := posts st @ (if webview then [StreamingUpdate text full] else [])\<rparr>)))))"

definition chunkLines :: "string \<Rightarrow> string list" where
  \<comment> \<open>\<open>chunk.toString().split('\n').filter(line => line.trim())\<close>\<close>
  "chunkLines chunk = filter (\<lambda>line. trim line \<noteq> []) (split newline chunk)"

definition onEvent :: "(string \<Rightarrow> string) \<Rightarrow> bool \<Rightarrow> stream \<Rightarrow> streamEvent \<Rightarrow> stream" where
  \<comment> \<open>the three listeners on \<open>response.data\<close>\<close>
  "onEvent showNumber webview st ev =
     (case ev of
        Data chunk \<Rightarrow> foldl (onLine showNumber webview) st (chunkLines chunk)
      | End \<Rightarrow>
          st\<lparr>posts := posts st @ (if webview then [StreamingComplete] else []),
             outcome := settle (outcome st) (Resolved (fullResponse st))\<rparr>
      | StreamError e \<Rightarrow> st\<lparr>outcome := settle (outcome st) (Rejected e)\<rparr>)"

definition runStream :: "(string \<Rightarrow> string) \<Rightarrow> bool \<Rightarrow> streamEvent list \<Rightarrow> stream" where
  "runStream showNumber webview events =
     foldl (onEvent showNumber webview) \<lparr>fullResponse = [], outcome = Pending, posts = []\<rparr> events"

record chatCall =
  chatResult :: "ustring promise"
  chatPosts :: "post list"
  chatRequests :: "(string \<times> json) list"
  chatNotices :: "notice list"

definition getOllamaChat ::
  "(string \<Rightarrow> string) \<Rightarrow> config \<Rightarrow> (string \<Rightarrow> json \<Rightarrow> transport) \<Rightarrow> string \<Rightarrow> bool \<Rightarrow> chatCall" where
  \<comment> \<open>\<open>webview\<close> tells whether a listener was passed\<close>
  "getOllamaChat showNumber cfg post prompt webview =
     (let model = getModel cfg; apiUrl = getApiUrl cfg in
      if \<not> startsWith apiUrl ''http'' then
        \<lparr>chatResult = Resolved (units ''Invalid Ollama URL.''), chatPosts = [], chatRequests = [],
         chatNotices = [invalidUrlWarning apiUrl]\<rparr>
      else
        (let url = apiUrl @ ''/api/chat''; body = chatBody model prompt
         in case post url body of
              ChatPostThrows e \<Rightarrow>
                \<lparr>chatResult = Resolved (units ''Error connecting to Ollama.''), chatPosts = [],
                 chatRequests = [(url, body)],
                 chatNotices = [ShowError (''AICA: Ollama error - '' @ errorMessage e)]\<rparr>
            | ChatStream events \<Rightarrow>
                (let st = runStream showNumber webview events
                 in \<lparr>chatResult = outcome st, chatPosts = posts st,
                     chatRequests = [(url, body)], chatNotices = []\<rparr>)))"

subsection \<open>The fragments of a stream\<close>

text \<open>
  What the protocol says of a stream, to compare \<open>getOllamaChat\<close> with, in two readings.

  The first follows the words of the claim. A well-formed fragment is a non-empty line of
  a chunk that is valid JSON. Its content is its \<open>message.content\<close> field as text (nothing
  when the field is absent, falsy or no text can be made of it), and it carries \<open>done\<close>
  when its \<open>done\<close> field is truthy. \<open>claimedText\<close> is the text the claim says the call
  resolves with: the contents of the well-formed fragments up to and including the first
  that carries \<open>done\<close>.

  The second is what the \<open>try\<close> block makes of a line. A line is processed when the block
  reads it to its end: it parses, it is not \<open>null\<close>, and its content, if it has one, can be
  appended. The processed fragment is the text it appends and whether it carries \<open>done\<close>.
\<close>

definition quoted :: "string \<Rightarrow> string" where
  \<comment> \<open>a text between double quotes\<close>
  "quoted s = CHR 0x22 # s @ [CHR 0x22]"












section \<open>Suggestion parser\<close>

definition suggestionPattern :: rx where
  \<comment> \<open>\<open>/\*\*SUGGESTED CHANGES FOR (.+?):\*\*\s*(.*?)\s*```(\w+)?\s*([\s\S]*?)```/gi\<close>\<close>
  "suggestionPattern =
     RSeq [RLit ''**SUGGESTED CHANGES FOR '', RGrp 1 (RRep CDot 1 False), RLit '':**'',
           RRep CSpace 0 True, RGrp 2 (RRep CDot 0 False), RRep CSpace 0 True,
           RLit ''```'', ROpt (RGrp 3 (RRep CWord 1 True)), RRep CSpace 0 True,
           RGrp 4 (RRep CAny 0 False), RLit ''```'']"

record suggestion =
  targetFile :: string
  rationale :: string
  language :: string
  proposedContent :: string

definition groupOr :: "captures \<Rightarrow> nat \<Rightarrow> string" where
  \<comment> \<open>\<open>match[n] || ''\<close>\<close>
  "groupOr c n = (case group c n of None \<Rightarrow> [] | Some s \<Rightarrow> s)"

definition toSuggestion :: "string \<times> captures \<Rightarrow> suggestion" where
  \<comment> \<open>what the loop body reads off a match; groups 1, 2 and 4 take part in every match\<close>
  "toSuggestion m =
     \<lparr>targetFile = trim (groupOr (snd m) 1), rationale = trim (groupOr (snd m) 2),
      language = groupOr (snd m) 3, proposedContent = trim (groupOr (snd m) 4)\<rparr>"

definition parseSuggestions :: "string \<Rightarrow> suggestion list" where
  \<comment> \<open>the matches the \<open>exec\<close> loop of \<open>_parseAndHandleCodeSuggestions\<close> goes through, in
      order (the pattern has no empty match, so the loop always advances)\<close>
  "parseSuggestions response = map toSuggestion (scan True suggestionPattern [] response)"

section \<open>Edit orchestrator\<close>

datatype panelEvent = PanelMessage string | PanelClosed

record panel =
  decision :: "bool promise"
  disposed :: bool

definition disposePanel :: "panel \<Rightarrow> panel" where
  \<comment> \<open>\<open>panel.dispose()\<close> runs the \<open>onDidDispose\<close> listener, which resolves with \<open>false\<close>\<close>
  "disposePanel pn = \<lparr>decision = settle (decision pn) (Resolved False), disposed = True\<rparr>"

definition panelStep :: "panel \<Rightarrow> panelEvent \<Rightarrow> panel" where
  \<comment> \<open>a message of the webview or the user closing the panel; a disposed panel is silent.
      The handlers of \<open>apply\<close> and \<open>cancel\<close> call \<open>panel.dispose()\<close> first and \<open>resolve\<close> after.\<close>
  "panelStep pn ev =
     (if disposed pn then pn
      else case ev of
        PanelMessage command \<Rightarrow>
          if command = ''apply'' then
            (let pn' = disposePanel pn in pn'\<lparr>decision := settle (decision pn') (Resolved True)\<rparr>)
          else if command = ''cancel'' then
            (let pn' = disposePanel pn in pn'\<lparr>decision := settle (decision pn') (Resolved False)\<rparr>)
          else pn
      | PanelClosed \<Rightarrow> disposePanel pn)"

definition showSideBySideDiffPreview :: "panelEvent list \<Rightarrow> bool promise" where
  "showSideBySideDiffPreview events =
     decision (foldl panelStep \<lparr>decision = Pending, disposed = False\<rparr> events)"

definition previewCodeChange ::
  "(string \<rightharpoonup> string) \<Rightarrow> panelEvent list \<Rightarrow> string \<Rightarrow> string \<Rightarrow> string \<Rightarrow> string
     \<Rightarrow> (string \<rightharpoonup> string) \<times> notice list" where
  \<comment> \<open>the documents of the workspace by path, before and after. While the decision is
      pending nothing happens; opening a document that does not exist throws into the
      \<open>catch\<close>; the edit replaces the whole document.\<close>
  "previewCodeChange docs events originalCode newCode filePath description =
     (case showSideBySideDiffPreview events of
        Pending \<Rightarrow> (docs, [])
      | Rejected e \<Rightarrow> (docs, [ShowError (''Preview failed: '' @ e)])
      | Resolved shouldApply \<Rightarrow>
          if shouldApply then
            (case docs filePath of
               None \<Rightarrow> (docs, [ShowError (''Preview failed: '' @ ''cannot open '' @ filePath)])
             | Some old \<Rightarrow>
                 (docs(filePath \<mapsto> newCode),
                  [ShowInformation (''Applied changes to '' @ basename filePath)]))
          else (docs, [ShowInformation ''Changes cancelled'']))"

section \<open>Conversation history\<close>

definition sliceLast :: "nat \<Rightarrow> 'a list \<Rightarrow> 'a list" where
  \<comment> \<open>\<open>xs.slice(-n)\<close> for \<open>n > 0\<close>\<close>
  "sliceLast n xs = drop (length xs - n) xs"

definition turnText :: "string \<Rightarrow> string \<Rightarrow> string" where
  "turnText userMsg response = ''User: '' @ userMsg @ [newline] @ ''AICA: '' @ response"

definition recordTurn :: "config \<Rightarrow> string list \<Rightarrow> string \<Rightarrow> string \<Rightarrow> string list" where
  \<comment> \<open>the end of the \<open>sendMessage\<close> case, once the response has arrived: the push, and the
      truncation unless the \<open>chatHistory\<close> setting is true\<close>
  "recordTurn cfg chatHistory userMsg response =
     (let pushed = chatHistory @ [turnText userMsg response]
      in if cfgChatHistory cfg \<noteq> Some True then sliceLast 10 pushed else pushed)"

definition handleCommand :: "(string \<rightharpoonup> string) \<Rightarrow> string list \<Rightarrow> string \<Rightarrow> string list" where
  \<comment> \<open>what \<open>_handleCommand\<close> does to the history: \<open>/read <path>\<close> records the file it could
      open, the other commands record nothing\<close>
  "handleCommand docs chatHistory command =
     (let parts = split (CHR '' '') command; cmd = toLowerCase (hd parts) in
      if cmd = ''/read'' then
        (if length parts < 2 then chatHistory
         else
           (let readPath = join '' '' (drop 1 parts) in
            case docs readPath of
              None \<Rightarrow> chatHistory
            | Some content \<Rightarrow> chatHistory @ [''Read file: '' @ readPath @ [newline] @ content]))
      else chatHistory)"

definition sendMessage ::
  "config \<Rightarrow> (string \<rightharpoonup> string) \<Rightarrow> string list \<Rightarrow> string \<Rightarrow> string promise \<Rightarrow> string list" where
  \<comment> \<open>the \<open>sendMessage\<close> case of the chat view's message handler, as a function of the
      history: a text that starts with a slash is a command; otherwise the turn is recorded
      once the model call has resolved and its suggestions were handled. A call that is
      rejected throws out of the handler, and one still pending has not reached the push.\<close>
  "sendMessage cfg docs chatHistory userMsg response =
     (if startsWith userMsg ''/'' then handleCommand docs chatHistory userMsg
      else case response of
        Resolved text \<Rightarrow> recordTurn cfg chatHistory userMsg text
      | _ \<Rightarrow> chatHistory)"

definition clearHistory :: "string list \<Rightarrow> string list" where
  "clearHistory chatHistory = []"

section \<open>Properties of the diff engine\<close>

lemma splitAcc_not_Nil: "splitAcc sep cur s \<noteq> []"
  by (induction s arbitrary: cur) auto

lemma join_Cons: "ys \<noteq> [] \<Longrightarrow> join sep (x # ys) = x @ sep @ join sep ys"
  by (cases ys) auto

lemma join_splitAcc: "join [sep] (splitAcc sep cur s) = rev cur @ s"
proof (induction s arbitrary: cur)
  case Nil
  show ?case by simp
next
  case (Cons c s)
  show ?case
  proof (cases "c = sep")
    case True
    then show ?thesis
      using Cons.IH [of "[]"] by (simp add: join_Cons splitAcc_not_Nil)
  next
    case False
    then show ?thesis
      using Cons.IH [of "c # cur"] by simp
  qed
qed

lemma join_split: "join [sep] (split sep s) = s"
  by (simp add: split_def join_splitAcc)

lemma diffStep_other:
  "\<not> startsWith line ''@@'' \<Longrightarrow> \<not> startsWith line ''+'' \<Longrightarrow> \<not> startsWith line ''-'' \<Longrightarrow>
   diffStep st line = st"
  by (cases st) (simp add: diffStep_def)

lemma foldl_diffStep_other:
  "\<forall>l \<in> set ls. \<not> startsWith l ''@@'' \<and> \<not> startsWith l ''+'' \<and> \<not> startsWith l ''-'' \<Longrightarrow>
   foldl diffStep st ls = st"
  by (induction ls arbitrary: st) (simp_all add: diffStep_other)

text \<open>
  C10. A diff text none of whose lines starts with \<open>@@\<close>, \<open>+\<close> or \<open>-\<close> changes nothing:
  \<open>applyDiffToContent\<close> returns the base text as it was. The empty diff text is one of them.
\<close>

theorem applyDiffToContent_noop:
  "((\<forall>l \<in> set (split newline diffText).
       \<not> startsWith l ''@@'' \<and> \<not> startsWith l ''+'' \<and> \<not> startsWith l ''-'')
     \<longrightarrow> applyDiffToContent originalContent diffText = originalContent)
   \<and> applyDiffToContent originalContent [] = originalContent"
proof -
  have "applyDiffToContent originalContent [] = originalContent"
    by (simp add: applyDiffToContent_def split_def diffStep_def join_split [unfolded split_def])
  then show ?thesis
    by (simp add: applyDiffToContent_def foldl_diffStep_other join_split)
qed

theorem applyDiffToContent_noop_witness:
  "applyDiffToContent ''let a = 1;\<newline>let b = 2;'' '' let a = 1;\<newline> let b = 2;''
     = ''let a = 1;\<newline>let b = 2;''"
proof -
  have h: "\<forall>l \<in> set (split newline '' let a = 1;\<newline> let b = 2;'').
      \<not> startsWith l ''@@'' \<and> \<not> startsWith l ''+'' \<and> \<not> startsWith l ''-''"
    by (simp add: split_def newline_def)
  show ?thesis
    using applyDiffToContent_noop [of "'' let a = 1;\<newline> let b = 2;''" "''let a = 1;\<newline>let b = 2;''"] h
    by blast
qed

text \<open>
  C1. The round trip through a unified diff does not hold. For the base text \<open>a\<close>, \<open>b\<close> and
  the target text \<open>a\<close>, \<open>x\<close>, \<open>b\<close> (two and three lines, each ending in a line feed, no line
  twice) the unified diff is the hunk \<open>@@ -1,2 +1,3 @@\<close> with the context line \<open>a\<close>, the added line \<open>+x\<close>
  and the context line \<open>b\<close>, under the file header the patch library writes. \<open>applyDiffToContent\<close> leaves the
  cursor at the hunk's start over the context line, so \<open>x\<close> lands before \<open>a\<close>, and it reads
  the header line \<open>+++ f.txt\<close> as an added line: the result is not the target text, with the
  header and without it.
\<close>

theorem applyDiffToContent_unified_diff:
  "applyDiffToContent ''a\<newline>b\<newline>''
     ''Index: f.txt\<newline>===================================================================\<newline>--- f.txt\<newline>+++ f.txt\<newline>@@ -1,2 +1,3 @@\<newline> a\<newline>+x\<newline> b\<newline>''
     = ''x\<newline>++ f.txt\<newline>a\<newline>b\<newline>''
   \<and> applyDiffToContent ''a\<newline>b\<newline>'' ''@@ -1,2 +1,3 @@\<newline> a\<newline>+x\<newline> b\<newline>''
     = ''x\<newline>a\<newline>b\<newline>''"
  by code_simp

section \<open>Properties of the edit orchestrator\<close>

lemma foldl_panelStep_disposed: "disposed pn \<Longrightarrow> foldl panelStep pn events = pn"
  by (induction events) (simp_all add: panelStep_def)

lemma preview_cancel: "showSideBySideDiffPreview (PanelMessage ''cancel'' # events) = Resolved False"
  by (simp add: showSideBySideDiffPreview_def panelStep_def disposePanel_def settle_def
      foldl_panelStep_disposed Let_def)

text \<open>
  The handler of \<open>apply\<close> disposes the panel before it resolves. Disposing runs the
  \<open>onDidDispose\<close> listener, which resolves with \<open>false\<close>, so the promise is settled when
  \<open>resolve(true)\<close> is called.
\<close>

lemma preview_apply: "showSideBySideDiffPreview (PanelMessage ''apply'' # events) = Resolved False"
  by (simp add: showSideBySideDiffPreview_def panelStep_def disposePanel_def settle_def
      foldl_panelStep_disposed Let_def)

lemma preview_closed: "showSideBySideDiffPreview (PanelClosed # events) = Resolved False"
  by (simp add: showSideBySideDiffPreview_def panelStep_def disposePanel_def settle_def
      foldl_panelStep_disposed)

text \<open>
  C6. Unless the confirmation resolves with \<open>true\<close>, \<open>previewCodeChange\<close> leaves every
  document as it was: a changed document means an affirmative decision. A \<open>cancel\<close> message
  and the panel being closed without a choice both resolve with \<open>false\<close>, whatever follows,
  and so write nothing.
\<close>

theorem previewCodeChange_writes_only_on_apply:
  "(showSideBySideDiffPreview events \<noteq> Resolved True \<longrightarrow>
      fst (previewCodeChange docs events originalCode newCode filePath description) = docs)
   \<and> (fst (previewCodeChange docs events originalCode newCode filePath description) \<noteq> docs \<longrightarrow>
      showSideBySideDiffPreview events = Resolved True)
   \<and> fst (previewCodeChange docs (PanelMessage ''cancel'' # rest) originalCode newCode filePath description) = docs
   \<and> fst (previewCodeChange docs (PanelClosed # rest) originalCode newCode filePath description) = docs"
proof -
  have a: "showSideBySideDiffPreview evs \<noteq> Resolved True \<Longrightarrow>
      fst (previewCodeChange docs evs originalCode newCode filePath description) = docs" for evs
    by (auto simp: previewCodeChange_def split: promise.splits option.splits)
  show ?thesis
    using a [of events] a [of "PanelMessage ''cancel'' # rest"] a [of "PanelClosed # rest"]
    by (auto simp: preview_cancel preview_closed)
qed

theorem previewCodeChange_writes_only_on_apply_witness:
  "fst (previewCodeChange [''/w/foo.ts'' \<mapsto> ''const x = 0;''] [PanelMessage ''ready'', PanelClosed]
          ''const x = 0;'' ''const x = 1;'' ''/w/foo.ts'' ''Fix typo'') ''/w/foo.ts''
     = Some ''const x = 0;''
   \<and> showSideBySideDiffPreview [PanelMessage ''ready'', PanelClosed] = Resolved False"
proof -
  have h: "showSideBySideDiffPreview [PanelMessage ''ready'', PanelClosed] = Resolved False"
    by (simp add: showSideBySideDiffPreview_def panelStep_def disposePanel_def settle_def)
  show ?thesis
    using previewCodeChange_writes_only_on_apply
      [of "[PanelMessage ''ready'', PanelClosed]" "[''/w/foo.ts'' \<mapsto> ''const x = 0;'']"
          "''const x = 0;''" "''const x = 1;''" "''/w/foo.ts''" "''Fix typo''"] h
    by simp
qed

section \<open>Properties of the conversation history\<close>

lemma sliceLast_snoc: "sliceLast 10 (sliceLast 10 xs @ [y]) = sliceLast 10 (xs @ [y])"
proof (cases "length xs \<le> 10")
  case True
  then show ?thesis by (simp add: sliceLast_def)
next
  case False
  then have "length xs - (length xs - 10 + 9) + (length xs - 10) = length xs - 9"
    by arith
  with False show ?thesis by (simp add: sliceLast_def)
qed

lemma foldl_recordTurn:
  "cfgChatHistory cfg \<noteq> Some True \<Longrightarrow> turns \<noteq> [] \<Longrightarrow>
   foldl (\<lambda>h (u, r). recordTurn cfg h u r) h0 turns
     = sliceLast 10 (h0 @ map (\<lambda>(u, r). turnText u r) turns)"
proof (induction turns rule: rev_induct)
  case Nil
  then show ?case by simp
next
  case (snoc t turns)
  obtain u r where t: "t = (u, r)" by (cases t)
  show ?case
  proof (cases "turns = []")
    case True
    with snoc.prems t show ?thesis by (simp add: recordTurn_def)
  next
    case False
    with snoc t show ?thesis
      using sliceLast_snoc [of "h0 @ map (\<lambda>(u, r). turnText u r) turns" "turnText u r"]
      by (simp add: recordTurn_def)
  qed
qed

lemma foldl_sendMessage:
  "\<forall>(u, r) \<in> set turns. \<not> startsWith u ''/'' \<Longrightarrow>
   foldl (\<lambda>h (u, r). sendMessage cfg docs h u (Resolved r)) h0 turns
     = foldl (\<lambda>h (u, r). recordTurn cfg h u r) h0 turns"
  by (induction turns arbitrary: h0) (auto simp: sendMessage_def)

text \<open>
  C7. With the \<open>chatHistory\<close> setting not true (false, or not set), fifteen chat messages
  sent through the handler, none of them a slash command and each answered, leave exactly
  the last ten turns in the history, in the order they were sent, whatever the history
  held before.
\<close>

theorem history_keeps_last_ten:
  assumes "cfgChatHistory cfg \<noteq> Some True"
    and "length turns = 15"
    and "\<forall>(u, r) \<in> set turns. \<not> startsWith u ''/''"
  shows "foldl (\<lambda>h (u, r). sendMessage cfg docs h u (Resolved r)) chatHistory turns
           = map (\<lambda>(u, r). turnText u r) (drop 5 turns)"
proof -
  from assms(2) have ne: "turns \<noteq> []" by auto
  have "foldl (\<lambda>h (u, r). sendMessage cfg docs h u (Resolved r)) chatHistory turns
          = sliceLast 10 (chatHistory @ map (\<lambda>(u, r). turnText u r) turns)"
    using assms(1,3) ne by (simp add: foldl_sendMessage foldl_recordTurn)
  also have "\<dots> = map (\<lambda>(u, r). turnText u r) (drop 5 turns)"
    using assms(2) by (simp add: sliceLast_def drop_map)
  finally show ?thesis .
qed

theorem history_keeps_last_ten_witness:
  "foldl (\<lambda>h (u, r). sendMessage \<lparr>cfgModel = None, cfgApiUrl = None, cfgChatHistory = Some False\<rparr> Map.empty h u (Resolved r))
      [''Read file: a.ts'']
      (map (\<lambda>n. (''q'' @ [char_of (n + 97)], ''a'' @ [char_of (n + 97)])) [0 ..< 15])
    = map (\<lambda>n. turnText (''q'' @ [char_of (n + 97)]) (''a'' @ [char_of (n + 97)])) [5 ..< 15]"
proof -
  let ?turns = "map (\<lambda>n::nat. (''q'' @ [char_of (n + 97)], ''a'' @ [char_of (n + 97)])) [0 ..< 15]"
  have a: "cfgChatHistory \<lparr>cfgModel = None, cfgApiUrl = None, cfgChatHistory = Some False\<rparr> \<noteq> Some True"
    by simp
  have b: "length ?turns = 15" by simp
  have c: "\<forall>(u, r) \<in> set ?turns. \<not> startsWith u ''/''" by auto
  have d: "map (\<lambda>(u, r). turnText u r) (drop 5 ?turns)
      = map (\<lambda>n. turnText (''q'' @ [char_of (n + 97)]) (''a'' @ [char_of (n + 97)])) [5 ..< 15]"
    by (simp add: drop_map comp_def)
  show ?thesis
    using history_keeps_last_ten [OF a b c, of Map.empty "[''Read file: a.ts'']"] d by simp
qed

section \<open>Properties of the model client\<close>

text \<open>
  C4, as the code has it. The check before the request is that the configured address
  starts with \<open>http\<close>. For every address that does not, the review call and the chat call
  both return the message \<open>Invalid Ollama URL.\<close>, show one warning and make no request.
\<close>

theorem invalid_endpoint_returns_message:
  assumes "\<not> startsWith (getApiUrl cfg) ''http''"
  shows "returned (getOllamaReview cfg post codeText instruction) = Some (jstr ''Invalid Ollama URL.'')
       \<and> requests (getOllamaReview cfg post codeText instruction) = []
       \<and> notices (getOllamaReview cfg post codeText instruction) = [invalidUrlWarning (getApiUrl cfg)]
       \<and> chatResult (getOllamaChat showNumber cfg chatPost prompt webview)
           = Resolved (units ''Invalid Ollama URL.'')
       \<and> chatRequests (getOllamaChat showNumber cfg chatPost prompt webview) = []
       \<and> chatNotices (getOllamaChat showNumber cfg chatPost prompt webview)
           = [invalidUrlWarning (getApiUrl cfg)]"
  using assms by (simp add: getOllamaReview_def getOllamaChat_def Let_def)

theorem invalid_endpoint_returns_message_witness:
  "returned (getOllamaReview \<lparr>cfgModel = None, cfgApiUrl = Some ''localhost:11434'', cfgChatHistory = None\<rparr>
       (\<lambda>url body. PostReturns (JObj [field ''response'' (jstr ''ok'')])) ''let x;'' ''Review'')
     = Some (jstr ''Invalid Ollama URL.'')
   \<and> requests (getOllamaReview \<lparr>cfgModel = None, cfgApiUrl = Some ''localhost:11434'', cfgChatHistory = None\<rparr>
       (\<lambda>url body. PostReturns (JObj [field ''response'' (jstr ''ok'')])) ''let x;'' ''Review'') = []"
proof -
  have h: "\<not> startsWith (getApiUrl \<lparr>cfgModel = None, cfgApiUrl = Some ''localhost:11434'', cfgChatHistory = None\<rparr>) ''http''"
    by (simp add: getApiUrl_def)
  show ?thesis
    using invalid_endpoint_returns_message [OF h] by simp
qed

text \<open>
  The address \<open>httpx\<close> is no \<open>http://\<close> or \<open>https://\<close> URL, and the review call sends its
  request all the same.
\<close>

theorem invalid_endpoint_counterexample:
  "\<not> startsWith ''httpx'' ''http://'' \<and> \<not> startsWith ''httpx'' ''https://''
   \<and> requests (getOllamaReview \<lparr>cfgModel = None, cfgApiUrl = Some ''httpx'', cfgChatHistory = None\<rparr>
        (\<lambda>url body. PostThrows None) ''let x;'' ''Review'')
      = [(''httpx/api/generate'',
          generateBody ''codellama'' (''Review'' @ [newline, newline] @ ''Code:'' @ [newline] @ ''let x;''))]
   \<and> returned (getOllamaReview \<lparr>cfgModel = None, cfgApiUrl = Some ''httpx'', cfgChatHistory = None\<rparr>
        (\<lambda>url body. PostThrows None) ''let x;'' ''Review'')
      = Some (jstr ''Error connecting to Ollama. Ensure the server is running at httpx'')"
  by (simp add: getOllamaReview_def getApiUrl_def getModel_def Let_def)

subsection \<open>Streaming\<close>

















lemma getOllamaChat_stream:
  assumes "startsWith (getApiUrl cfg) ''http''"
    and "post (getApiUrl cfg @ ''/api/chat'') (chatBody (getModel cfg) prompt) = ChatStream events"
  shows "chatResult (getOllamaChat sn cfg post prompt wv) = outcome (runStream sn wv events)
       \<and> chatPosts (getOllamaChat sn cfg post prompt wv) = posts (runStream sn wv events)"
  using assms by (simp add: getOllamaChat_def Let_def)















text \<open>
  C3. When the transport delivers the chunk \<open>{"message":{"content":"Hel"}}\<close> and then the
  chunk \<open>{"message":{"content":"lo"},"done":true}\<close>, each ending in a line feed, and then
  ends, the chat call resolves with \<open>Hello\<close>. The listener receives two partial-content
  notifications (\<open>Hel\<close>, then \<open>lo\<close> with the full text \<open>Hello\<close>) before the completion
  notice. The promise is pending after the first chunk and settled by the second; the end
  of the stream does not settle it again.
\<close>

theorem streaming_hello:
  assumes "startsWith (getApiUrl cfg) ''http''"
    and "post (getApiUrl cfg @ ''/api/chat'') (chatBody (getModel cfg) prompt)
           = ChatStream
               [Data (''{'' @ quoted ''message'' @ '':{'' @ quoted ''content'' @ '':'' @ quoted ''Hel'' @ ''}}'' @ [newline]),
                Data (''{'' @ quoted ''message'' @ '':{'' @ quoted ''content'' @ '':'' @ quoted ''lo'' @ ''},''
                        @ quoted ''done'' @ '':true}'' @ [newline]),
                End]"
  shows "chatResult (getOllamaChat showNumber cfg post prompt True) = Resolved (units ''Hello'')
       \<and> chatPosts (getOllamaChat showNumber cfg post prompt True)
           = [StreamingUpdate (units ''Hel'') (units ''Hel''),
              StreamingUpdate (units ''lo'') (units ''Hello''), StreamingComplete]
       \<and> outcome (runStream showNumber True
           [Data (''{'' @ quoted ''message'' @ '':{'' @ quoted ''content'' @ '':'' @ quoted ''Hel'' @ ''}}'' @ [newline])])
           = Pending
       \<and> outcome (runStream showNumber True
           [Data (''{'' @ quoted ''message'' @ '':{'' @ quoted ''content'' @ '':'' @ quoted ''Hel'' @ ''}}'' @ [newline]),
            Data (''{'' @ quoted ''message'' @ '':{'' @ quoted ''content'' @ '':'' @ quoted ''lo'' @ ''},''
                    @ quoted ''done'' @ '':true}'' @ [newline])])
           = Resolved (units ''Hello'')"
proof -
  let ?c1 = "''{'' @ quoted ''message'' @ '':{'' @ quoted ''content'' @ '':'' @ quoted ''Hel'' @ ''}}'' @ [newline]"
  let ?c2 = "''{'' @ quoted ''message'' @ '':{'' @ quoted ''content'' @ '':'' @ quoted ''lo'' @ ''},''
                        @ quoted ''done'' @ '':true}'' @ [newline]"
  have run: "runStream showNumber True [Data ?c1, Data ?c2, End]
      = \<lparr>fullResponse = units ''Hello'', outcome = Resolved (units ''Hello''),
         posts = [StreamingUpdate (units ''Hel'') (units ''Hel''),
                  StreamingUpdate (units ''lo'') (units ''Hello''), StreamingComplete]\<rparr>"
    by code_simp
  have one: "outcome (runStream showNumber True [Data ?c1]) = Pending"
    by code_simp
  have two: "outcome (runStream showNumber True [Data ?c1, Data ?c2]) = Resolved (units ''Hello'')"
    by code_simp
  note g = getOllamaChat_stream [of cfg post prompt "[Data ?c1, Data ?c2, End]" showNumber True, OF assms]
  have a: "chatResult (getOllamaChat showNumber cfg post prompt True) = Resolved (units ''Hello'')"
    using g unfolding run by simp
  have b: "chatPosts (getOllamaChat showNumber cfg post prompt True)
      = [StreamingUpdate (units ''Hel'') (units ''Hel''),
         StreamingUpdate (units ''lo'') (units ''Hello''), StreamingComplete]"
    using g unfolding run by simp
  show ?thesis
    by (intro conjI) (rule a b one two)+
qed

theorem streaming_hello_witness:
  "chatResult (getOllamaChat id \<lparr>cfgModel = None, cfgApiUrl = Some ''http://localhost:11434'', cfgChatHistory = None\<rparr>
      (\<lambda>url body. ChatStream
               [Data (''{'' @ quoted ''message'' @ '':{'' @ quoted ''content'' @ '':'' @ quoted ''Hel'' @ ''}}'' @ [newline]),
                Data (''{'' @ quoted ''message'' @ '':{'' @ quoted ''content'' @ '':'' @ quoted ''lo'' @ ''},''
                        @ quoted ''done'' @ '':true}'' @ [newline]),
                End])
      ''Say hello'' True)
    = Resolved (units ''Hello'')"
proof -
  let ?cfg = "\<lparr>cfgModel = None, cfgApiUrl = Some ''http://localhost:11434'', cfgChatHistory = None\<rparr>"
  have u: "startsWith (getApiUrl ?cfg) ''http''"
    by (simp add: getApiUrl_def)
  show ?thesis
    using streaming_hello [OF u, of "\<lambda>url body. ChatStream
               [Data (''{'' @ quoted ''message'' @ '':{'' @ quoted ''content'' @ '':'' @ quoted ''Hel'' @ ''}}'' @ [newline]),
                Data (''{'' @ quoted ''message'' @ '':{'' @ quoted ''content'' @ '':'' @ quoted ''lo'' @ ''},''
                        @ quoted ''done'' @ '':true}'' @ [newline]),
                End]" "''Say hello''" id]
    by simp
qed

section \<open>Properties of the matcher\<close>

declare ms.simps [simp del]

lemma seq_Nil: "ms icase (RSeq []) st = [st]"
  by (simp add: ms.simps)

lemma fold_states:
  "fold (\<lambda>e sts. concat (map (ms icase e) sts)) es sts
     = concat (map (\<lambda>st. fold (\<lambda>e sts. concat (map (ms icase e) sts)) es [st]) sts)"
proof (induction es arbitrary: sts)
  case Nil
  show ?case by simp
next
  case (Cons e es)
  have "fold (\<lambda>e sts. concat (map (ms icase e) sts)) (e # es) sts
      = fold (\<lambda>e sts. concat (map (ms icase e) sts)) es (concat (map (ms icase e) sts))"
    by simp
  also have "\<dots> = concat (map (\<lambda>st. fold (\<lambda>e sts. concat (map (ms icase e) sts)) es [st])
      (concat (map (ms icase e) sts)))"
    by (rule Cons.IH)
  also have "\<dots> = concat (map (\<lambda>st. concat (map (\<lambda>st'. fold (\<lambda>e sts. concat (map (ms icase e) sts)) es [st'])
      (ms icase e st))) sts)"
    by (induction sts) simp_all
  also have "\<dots> = concat (map (\<lambda>st. fold (\<lambda>e sts. concat (map (ms icase e) sts)) (e # es) [st]) sts)"
    using Cons.IH [symmetric] by simp
  finally show ?case .
qed

lemma seq_Cons: "ms icase (RSeq (e # es)) st = concat (map (ms icase (RSeq es)) (ms icase e st))"
proof -
  have "ms icase (RSeq es) = (\<lambda>st. fold (\<lambda>e sts. concat (map (ms icase e) sts)) es [st])"
    by (rule ext) (simp add: ms.simps)
  with fold_states [of icase es "ms icase e st"] show ?thesis by (simp add: ms.simps)
qed

lemma reps_upt:
  "reps P mn g p r = map (\<lambda>k. (rev (take k r) @ p, drop k r))
     (if g then rev [mn ..< Suc (length (takeWhile P r))] else [mn ..< Suc (length (takeWhile P r))])"
proof (induction r arbitrary: p mn)
  case Nil
  show ?case by (cases mn) simp_all
next
  case (Cons x xs)
  let ?n = "length (takeWhile P xs)"
  show ?case
  proof (cases "P x")
    case False
    then show ?thesis by (cases mn) simp_all
  next
    case True
    have sh: "map (\<lambda>k. (rev (take k xs) @ x # p, drop k xs)) [a ..< Suc ?n]
        = map (\<lambda>k. (rev (take k (x # xs)) @ p, drop k (x # xs))) [Suc a ..< Suc (Suc ?n)]" for a
      by (simp add: map_Suc_upt [symmetric] del: upt_Suc)
    have shr: "map (\<lambda>k. (rev (take k xs) @ x # p, drop k xs)) (rev [a ..< Suc ?n])
        = map (\<lambda>k. (rev (take k (x # xs)) @ p, drop k (x # xs))) (rev [Suc a ..< Suc (Suc ?n)])" for a
      using sh [of a] unfolding rev_map [symmetric] by simp
    show ?thesis
    proof (cases mn)
      case 0
      have u: "[0 ..< Suc (Suc ?n)] = 0 # [Suc 0 ..< Suc (Suc ?n)]"
        by (simp add: upt_conv_Cons del: upt_Suc)
      show ?thesis
      proof (cases g)
        case True
        with \<open>P x\<close> 0 shr [of 0] Cons.IH [where p = "x # p" and mn = 0] show ?thesis
          by (simp add: u del: upt_Suc)
      next
        case False
        with \<open>P x\<close> 0 sh [of 0] Cons.IH [where p = "x # p" and mn = 0] show ?thesis
          by (simp add: u del: upt_Suc)
      qed
    next
      case (Suc m)
      show ?thesis
      proof (cases g)
        case True
        with \<open>P x\<close> Suc shr [of m] Cons.IH [where p = "x # p" and mn = m] show ?thesis
          by (simp del: upt_Suc)
      next
        case False
        with \<open>P x\<close> Suc sh [of m] Cons.IH [where p = "x # p" and mn = m] show ?thesis
          by (simp del: upt_Suc)
      qed
    qed
  qed
qed

lemma first_success:
  "(\<forall>a \<in> set as. f a = []) \<Longrightarrow> f x = y # ys \<Longrightarrow> \<exists>rest. concat (map f (as @ x # bs)) = y # rest"
  by (induction as) simp_all

lemma ms_rep:
  "ms icase (RRep K mn g) (p, r, c) = map (\<lambda>k. (rev (take k r) @ p, drop k r, c))
     (if g then rev [mn ..< Suc (length (takeWhile (inCls K) r))]
      else [mn ..< Suc (length (takeWhile (inCls K) r))])"
  by (simp add: ms.simps reps_upt comp_def)

lemma ms_grp_rep:
  "ms icase (RGrp gi (RRep K mn g)) (p, r, c) = map (\<lambda>k. (rev (take k r) @ p, drop k r, (gi, take k r) # c))
     (if g then rev [mn ..< Suc (length (takeWhile (inCls K) r))]
      else [mn ..< Suc (length (takeWhile (inCls K) r))])"
  by (simp add: ms.simps reps_upt comp_def)

lemma takeWhile_run: "\<forall>x \<in> set u. P x \<Longrightarrow> v = [] \<or> \<not> P (hd v) \<Longrightarrow> takeWhile P (u @ v) = u"
  by (cases v) (simp_all add: takeWhile_append2)

lemma lit_step:
  "ms icase (RSeq (RLit s # es)) (p, r, c) =
     (if length s \<le> length r \<and> sameText icase (take (length s) r) s
      then ms icase (RSeq es) (rev (take (length s) r) @ p, drop (length s) r, c) else [])"
  by (auto simp: seq_Cons ms.simps(1))

lemma lit_exact: "ms icase (RSeq (RLit s # es)) (p, s @ v, c) = ms icase (RSeq es) (rev s @ p, v, c)"
  by (simp add: lit_step sameText_def)

lemma greedy_first:
  assumes "\<forall>x \<in> set u. inCls K x" and "v = [] \<or> \<not> inCls K (hd v)" and "mn \<le> length u"
    and "ms icase (RSeq es) (rev u @ p, v, c) = R # rest"
  shows "\<exists>rest'. ms icase (RSeq (RRep K mn True # es)) (p, u @ v, c) = R # rest'"
proof -
  have n: "length (takeWhile (inCls K) (u @ v)) = length u"
    using takeWhile_run [OF assms(1,2)] by simp
  have "rev [mn ..< Suc (length u)] = length u # rev [mn ..< length u]"
    using assms(3) by simp
  then have "ms icase (RRep K mn True) (p, u @ v, c)
      = (rev u @ p, v, c) # map (\<lambda>k. (rev (take k (u @ v)) @ p, drop k (u @ v), c)) (rev [mn ..< length u])"
    unfolding ms_rep n by simp
  with assms(4) show ?thesis
    by (simp add: seq_Cons)
qed

lemma lazy_grp_first:
  assumes "\<forall>x \<in> set u. inCls K x" and "mn \<le> length u"
    and "\<forall>k. mn \<le> k \<and> k < length u \<longrightarrow>
           ms icase (RSeq es) (rev (take k u) @ p, drop k u @ v, (gi, take k u) # c) = []"
    and "ms icase (RSeq es) (rev u @ p, v, (gi, u) # c) = R # rest"
  shows "\<exists>rest'. ms icase (RSeq (RGrp gi (RRep K mn False) # es)) (p, u @ v, c) = R # rest'"
proof -
  let ?n = "length (takeWhile (inCls K) (u @ v))"
  let ?f = "\<lambda>k. (rev (take k (u @ v)) @ p, drop k (u @ v), (gi, take k (u @ v)) # c)"
  have "length u \<le> ?n"
    using assms(1) by (simp add: takeWhile_append2)
  then obtain d where d: "Suc ?n = length u + Suc d"
    by (metis add_Suc_right le_Suc_ex)
  have "[mn ..< Suc ?n] = [mn ..< length u] @ [length u ..< length u + Suc d]"
    unfolding d using assms(2) by (rule upt_add_eq_append)
  also have "[length u ..< length u + Suc d] = length u # [Suc (length u) ..< length u + Suc d]"
    by (simp add: upt_conv_Cons del: upt_Suc)
  finally have "[mn ..< Suc ?n] = [mn ..< length u] @ length u # [Suc (length u) ..< Suc ?n]"
    unfolding d .
  then have "ms icase (RGrp gi (RRep K mn False)) (p, u @ v, c)
      = map ?f [mn ..< length u] @ ?f (length u) # map ?f [Suc (length u) ..< Suc ?n]"
    unfolding ms_grp_rep by simp
  moreover have "\<forall>a \<in> set (map ?f [mn ..< length u]). ms icase (RSeq es) a = []"
    using assms(3) by auto
  moreover have "ms icase (RSeq es) (?f (length u)) = R # rest"
    using assms(4) by simp
  ultimately show ?thesis
    using first_success [of "map ?f [mn ..< length u]" "ms icase (RSeq es)" "?f (length u)" R rest
        "map ?f [Suc (length u) ..< Suc ?n]"]
    by (simp add: seq_Cons)
qed

lemma opt_grp_first:
  assumes "\<forall>x \<in> set u. inCls K x" and "u \<noteq> []" and "v = [] \<or> \<not> inCls K (hd v)"
    and "ms icase (RSeq es) (rev u @ p, v, (gi, u) # c) = R # rest"
  shows "\<exists>rest'. ms icase (RSeq (ROpt (RGrp gi (RRep K 1 True)) # es)) (p, u @ v, c) = R # rest'"
proof -
  have n: "length (takeWhile (inCls K) (u @ v)) = length u"
    using takeWhile_run [OF assms(1,3)] by simp
  from assms(2) have "1 \<le> length u" by (cases u) simp_all
  then have "rev [1 ..< Suc (length u)] = length u # rev [1 ..< length u]"
    by simp
  then have "\<exists>more. ms icase (RGrp gi (RRep K 1 True)) (p, u @ v, c) = (rev u @ p, v, (gi, u) # c) # more"
    unfolding ms_grp_rep n by simp
  then obtain more where "ms icase (RGrp gi (RRep K 1 True)) (p, u @ v, c) = (rev u @ p, v, (gi, u) # c) # more"
    by blast
  with assms(2) have "\<exists>more'. ms icase (ROpt (RGrp gi (RRep K 1 True))) (p, u @ v, c) = (rev u @ p, v, (gi, u) # c) # more'"
    by (simp add: ms.simps(3))
  with assms(4) show ?thesis
    by (auto simp: seq_Cons)
qed

lemma opt_grp_skip:
  assumes "v = [] \<or> \<not> inCls K (hd v)"
  shows "ms icase (RSeq (ROpt (RGrp gi (RRep K 1 True)) # es)) (p, v, c) = ms icase (RSeq es) (p, v, c)"
proof -
  from assms have "takeWhile (inCls K) v = []" by (cases v) simp_all
  then have "ms icase (RGrp gi (RRep K 1 True)) (p, v, c) = []"
    unfolding ms_grp_rep by simp
  then show ?thesis by (simp add: seq_Cons ms.simps(3))
qed

section \<open>Properties of the keyword extractor\<close>

lemma reps_sound:
  "(p', r') \<in> set (reps P mn g p r) \<Longrightarrow>
   \<exists>w. r = w @ r' \<and> p' = rev w @ p \<and> mn \<le> length w \<and> (\<forall>c \<in> set w. P c)"
proof (induction r arbitrary: p mn)
  case Nil
  then show ?case by (auto split: if_splits)
next
  case (Cons x xs)
  have rec: "\<exists>w. x # xs = w @ r' \<and> p' = rev w @ p \<and> mn \<le> length w \<and> (\<forall>c \<in> set w. P c)"
    if "P x" and "(p', r') \<in> set (reps P (mn - 1) g (x # p) xs)"
  proof -
    from Cons.IH [OF that(2)] obtain w where
      w: "xs = w @ r'" "p' = rev w @ x # p" "mn - 1 \<le> length w" "\<forall>c \<in> set w. P c"
      by blast
    with that(1) show ?thesis
      by (intro exI [of _ "x # w"]) auto
  qed
  have here: "\<exists>w. x # xs = w @ r' \<and> p' = rev w @ p \<and> mn \<le> length w \<and> (\<forall>c \<in> set w. P c)"
    if "mn = 0" and "(p', r') = (p, x # xs)"
    using that by (intro exI [of _ "[]"]) auto
  from Cons.prems rec here show ?case
    by (auto simp: Let_def split: if_splits)
qed

lemma keywordPattern_sound:
  assumes "(p', r', c') \<in> set (ms icase keywordPattern (p, r, c))"
  shows "\<exists>w. r = w @ r' \<and> p' = rev w @ p \<and> 3 \<le> length w \<and> (\<forall>x \<in> set w. isWordChar x)
           \<and> \<not> atWord p \<and> \<not> atWord r'"
proof -
  from assms have b1: "atWord p \<noteq> atWord r"
    and m: "(p', r') \<in> set (reps (inCls CWord) 3 True p r)"
    and b2: "atWord p' \<noteq> atWord r'"
    by (auto simp: keywordPattern_def ms.simps split: if_splits)
  from reps_sound [OF m] obtain w where
    w: "r = w @ r'" "p' = rev w @ p" "3 \<le> length w" "\<forall>x \<in> set w. isWordChar x"
    by auto
  from w(3) obtain a w' where aw: "w = a # w'" by (cases w) auto
  with w have "atWord r" by (simp add: atWord_def)
  with b1 have np: "\<not> atWord p" by simp
  from w(3) have "w \<noteq> []" by auto
  then have "rev w = last w # rev (butlast w)"
    by (metis rev.simps(2) rev_rev_ident append_butlast_last_id rev_append rev_singleton_conv append_Cons append_Nil)
  with w(2,4) \<open>w \<noteq> []\<close> have "atWord p'" by (simp add: atWord_def)
  with b2 have "\<not> atWord r'" by simp
  with w np show ?thesis by blast
qed

lemma scan_keywordPattern:
  "(m, c) \<in> set (scan icase keywordPattern p r) \<Longrightarrow>
   \<exists>pre post. rev p @ r = pre @ m @ post \<and> 3 \<le> length m \<and> (\<forall>x \<in> set m. isWordChar x)
      \<and> \<not> atWord (rev pre) \<and> \<not> atWord post"
proof (induction icase keywordPattern p r rule: scan.induct)
  case (1 icase p r)
  show ?case
  proof (cases "ms icase keywordPattern (p, r, [])")
    case Nil
    show ?thesis
    proof (cases r)
      case Nil
      with \<open>ms icase keywordPattern (p, r, []) = []\<close> "1.prems" show ?thesis
        by (simp add: scan.simps [of icase keywordPattern p "[]"])
    next
      case (Cons x xs)
      with \<open>ms icase keywordPattern (p, r, []) = []\<close> "1.prems"
      have "(m, c) \<in> set (scan icase keywordPattern (x # p) xs)"
        by (simp add: scan.simps [of icase keywordPattern p "x # xs"])
      from "1.hyps"(1) [OF \<open>ms icase keywordPattern (p, r, []) = []\<close> Cons this] Cons
      show ?thesis by simp
    qed
  next
    case (Cons st sts)
    obtain p' r' c' where st: "st = (p', r', c')" by (cases st)
    with Cons have "(p', r', c') \<in> set (ms icase keywordPattern (p, r, []))" by simp
    from keywordPattern_sound [OF this] obtain w where
      w: "r = w @ r'" "p' = rev w @ p" "3 \<le> length w" "\<forall>x \<in> set w. isWordChar x"
         "\<not> atWord p" "\<not> atWord r'"
      by blast
    from w(1,3) have shorter: "length r' < length r" by (cases w) simp_all
    have matched: "rev (take (length p' - length p) p') = w"
      using w(2) by simp
    from "1.prems" Cons st shorter matched
    have "(m, c) = (w, c') \<or> (m, c) \<in> set (scan icase keywordPattern p' r')"
      by (simp add: scan.simps [of icase keywordPattern p r])
    then show ?thesis
    proof
      assume "(m, c) = (w, c')"
      with w show ?thesis
        by (intro exI [of _ "rev p"] exI [of _ r']) simp
    next
      assume "(m, c) \<in> set (scan icase keywordPattern p' r')"
      from "1.hyps"(2) [OF Cons st [symmetric] refl shorter this] w(1,2)
      show ?thesis by simp
    qed
  qed
qed

lemma keywordPattern_complete:
  assumes "\<not> atWord p" and "3 \<le> length k" and "\<forall>x \<in> set k. isWordChar x" and "\<not> atWord post"
  shows "\<exists>rest. ms icase keywordPattern (p, k @ post, c) = (rev k @ p, post, c) # rest"
proof -
  from assms(2) obtain a k' where k: "k = a # k'" by (cases k) auto
  from assms(2) have ne: "k \<noteq> []" by auto
  with assms(3) have "isWordChar (last k)" by simp
  with ne have "atWord (rev k @ p)"
    by (cases k rule: rev_cases) (simp_all add: atWord_def)
  with assms(4) have e: "ms icase (RSeq [RWordB]) (rev k @ p, post, c) = [(rev k @ p, post, c)]"
    by (simp add: seq_Cons seq_Nil ms.simps)
  from assms(4) have v: "post = [] \<or> \<not> inCls CWord (hd post)"
    by (cases post) (simp_all add: atWord_def)
  from assms(3) have u: "\<forall>x \<in> set k. inCls CWord x" by simp
  from greedy_first [OF u v assms(2) e]
  obtain rest where "ms icase (RSeq [RRep CWord 3 True, RWordB]) (p, k @ post, c)
      = (rev k @ p, post, c) # rest"
    by blast
  moreover from assms(1,3) k have "ms icase RWordB (p, k @ post, c) = [(p, k @ post, c)]"
    by (simp add: ms.simps atWord_def)
  ultimately show ?thesis
    by (simp add: keywordPattern_def seq_Cons [of icase RWordB])
qed

lemma scan_keywordPattern_complete:
  assumes "3 \<le> length k" and "\<forall>x \<in> set k. isWordChar x" and "\<not> atWord post"
  shows "(if pre = [] then \<not> atWord p else \<not> isWordChar (last pre)) \<Longrightarrow>
         k \<in> fst ` set (scan icase keywordPattern p (pre @ k @ post))"
proof (induction pre arbitrary: p rule: length_induct)
  case (1 pre)
  show ?case
  proof (cases "pre = []")
    case True
    with "1.prems" have "\<not> atWord p" by simp
    from keywordPattern_complete [OF this assms, of icase "[]"]
    obtain rest where "ms icase keywordPattern (p, k @ post, []) = (rev k @ p, post, []) # rest"
      by blast
    with True show ?thesis
      by (simp add: scan.simps [of icase keywordPattern p "k @ post"])
  next
    case False
    then obtain x pre' where pre: "pre = x # pre'" by (cases pre) auto
    from False "1.prems" have nl: "\<not> isWordChar (last pre)" by simp
    let ?r = "pre @ k @ post"
    show ?thesis
    proof (cases "ms icase keywordPattern (p, ?r, [])")
      case Nil
      have inv: "if pre' = [] then \<not> atWord (x # p) else \<not> isWordChar (last pre')"
        using nl pre by (auto simp: atWord_def split: if_splits)
      have "length pre' < length pre" using pre by simp
      with "1.IH" inv have "k \<in> fst ` set (scan icase keywordPattern (x # p) (pre' @ k @ post))"
        by blast
      with Nil pre show ?thesis
        by (simp add: scan.simps [of icase keywordPattern p "x # pre' @ k @ post"])
    next
      case (Cons st sts)
      obtain p' r' c' where st: "st = (p', r', c')" by (cases st)
      with Cons have "(p', r', c') \<in> set (ms icase keywordPattern (p, ?r, []))" by simp
      from keywordPattern_sound [OF this] obtain w where
        w: "?r = w @ r'" "p' = rev w @ p" "3 \<le> length w" "\<forall>x \<in> set w. isWordChar x"
        by blast
      have short: "length w < length pre"
      proof (rule ccontr)
        assume "\<not> length w < length pre"
        then have "length pre \<le> length w" by simp
        with w(1) have "take (length pre) w = pre"
          by (metis append_eq_append_conv_if append_eq_conv_conj)
        then have "set pre \<subseteq> set w"
          by (metis set_take_subset)
        with False have "last pre \<in> set w" by auto
        with w(4) nl show False by blast
      qed
      with w(1) have "\<exists>pre''. pre = w @ pre'' \<and> r' = pre'' @ k @ post"
        by (metis append_eq_append_conv_if append_take_drop_id less_imp_le_nat)
      then obtain pre'' where p2: "pre = w @ pre''" "r' = pre'' @ k @ post" by blast
      with short have ne: "pre'' \<noteq> []" by auto
      with p2 nl have inv: "if pre'' = [] then \<not> atWord p' else \<not> isWordChar (last pre'')"
        by simp
      from p2 w(3) have "length pre'' < length pre" by auto
      with "1.IH" inv have rec: "k \<in> fst ` set (scan icase keywordPattern p' (pre'' @ k @ post))"
        by blast
      from w(1,3) have shorter: "length r' < length ?r"
        by (metis add_diff_cancel_right' diff_is_0_eq' length_append length_greater_0_conv
            less_add_same_cancel2 list.size(3) not_numeral_le_zero)
      from Cons st shorter rec p2 show ?thesis
        by (simp add: scan.simps [of icase keywordPattern p ?r])
    qed
  qed
qed

lemma toLowerChar_not_upper: "\<not> isUpper (toLowerChar c)"
  by (auto simp: toLowerChar_def isUpper_def code_def)

lemma scan_text:
  "(m, c) \<in> set (scan icase keywordPattern [] text) \<Longrightarrow>
   3 \<le> length m \<and> (\<forall>x \<in> set m. isWordChar x \<and> x \<in> set text)
   \<and> (\<exists>pre post. text = pre @ m @ post \<and> \<not> atWord (rev pre) \<and> \<not> atWord post)"
proof -
  assume "(m, c) \<in> set (scan icase keywordPattern [] text)"
  from scan_keywordPattern [OF this] obtain pre post where
    "text = pre @ m @ post" "3 \<le> length m" "\<forall>x \<in> set m. isWordChar x"
    "\<not> atWord (rev pre)" "\<not> atWord post"
    by auto
  then show "3 \<le> length m \<and> (\<forall>x \<in> set m. isWordChar x \<and> x \<in> set text)
   \<and> (\<exists>pre post. text = pre @ m @ post \<and> \<not> atWord (rev pre) \<and> \<not> atWord post)"
    by auto
qed

text \<open>
  C8. \<open>_extractKeywords\<close> returns its keywords without repetition. Each keyword has three
  characters or more, all of them word characters and none upper case; it stands in the
  lower-cased text between word boundaries (no word character right before it or right
  after it); and it is no stop word. Conversely every run of three or more word characters
  that stands between word boundaries in the lower-cased text and is no stop word is a
  keyword. The empty text has no keywords, and the keywords of \<open>The cat and the Dog ran\<close>
  are \<open>cat\<close>, \<open>dog\<close> and \<open>ran\<close>. (The extractor is a function of the text alone, so it
  is deterministic.)
\<close>

theorem extractKeywords_spec:
  "distinct (extractKeywords text)
   \<and> (\<forall>k \<in> set (extractKeywords text).
        3 \<le> length k
        \<and> (\<forall>c \<in> set k. isWordChar c \<and> \<not> isUpper c)
        \<and> k \<notin> set stopWords
        \<and> (\<exists>pre post. toLowerCase text = pre @ k @ post \<and> \<not> atWord (rev pre) \<and> \<not> atWord post))
   \<and> (\<forall>pre k post.
        toLowerCase text = pre @ k @ post \<and> 3 \<le> length k \<and> (\<forall>c \<in> set k. isWordChar c)
        \<and> \<not> atWord (rev pre) \<and> \<not> atWord post \<and> k \<notin> set stopWords
        \<longrightarrow> k \<in> set (extractKeywords text))
   \<and> extractKeywords [] = []
   \<and> extractKeywords ''The cat and the Dog ran'' = [''cat'', ''dog'', ''ran'']"
proof -
  have d: "distinct (extractKeywords text)"
    by (simp add: extractKeywords_def newSet_def)
  have k: "3 \<le> length k
        \<and> (\<forall>c \<in> set k. isWordChar c \<and> \<not> isUpper c)
        \<and> k \<notin> set stopWords
        \<and> (\<exists>pre post. toLowerCase text = pre @ k @ post \<and> \<not> atWord (rev pre) \<and> \<not> atWord post)"
    if "k \<in> set (extractKeywords text)" for k
  proof -
    from that have ns: "k \<notin> set stopWords"
      and "k \<in> fst ` set (scan False keywordPattern [] (toLowerCase text))"
      by (auto simp: extractKeywords_def newSet_def)
    then obtain c where "(k, c) \<in> set (scan False keywordPattern [] (toLowerCase text))"
      by auto
    from scan_text [OF this] have
      a: "3 \<le> length k" and b: "\<forall>x \<in> set k. isWordChar x \<and> x \<in> set (toLowerCase text)"
      and c: "\<exists>pre post. toLowerCase text = pre @ k @ post \<and> \<not> atWord (rev pre) \<and> \<not> atWord post"
      by auto
    from b have "\<forall>x \<in> set k. isWordChar x \<and> \<not> isUpper x"
      by (auto simp: toLowerCase_def toLowerChar_not_upper)
    with a ns c show ?thesis by blast
  qed
  have m: "k \<in> set (extractKeywords text)"
    if t: "toLowerCase text = pre @ k @ post" and l: "3 \<le> length k"
      and w: "\<forall>c \<in> set k. isWordChar c" and b1: "\<not> atWord (rev pre)" and b2: "\<not> atWord post"
      and ns: "k \<notin> set stopWords"
    for pre k post
  proof -
    from b1 have "if pre = [] then \<not> atWord [] else \<not> isWordChar (last pre)"
      by (cases pre rule: rev_cases) (simp_all add: atWord_def)
    from scan_keywordPattern_complete [OF l w b2 this, of False]
    have "k \<in> fst ` set (scan False keywordPattern [] (toLowerCase text))"
      unfolding t .
    with ns show ?thesis
      by (simp add: extractKeywords_def newSet_def)
  qed
  have e: "extractKeywords [] = []"
    by code_simp
  have x: "extractKeywords ''The cat and the Dog ran'' = [''cat'', ''dog'', ''ran'']"
    by code_simp
  from d k m e x show ?thesis by blast
qed

theorem extractKeywords_spec_witness:
  "set (extractKeywords ''The cat and the Dog ran'') = {''cat'', ''dog'', ''ran''}
   \<and> 3 \<le> length ''dog'' \<and> ''dog'' \<notin> set stopWords
   \<and> ''the'' \<notin> set (extractKeywords ''The cat and the Dog ran'')
   \<and> ''rocks'' \<in> set (extractKeywords ''My dog ROCKS!'')"
proof -
  have m: "''dog'' \<in> set [''cat'', ''dog'', ''ran'']" by simp
  from extractKeywords_spec [of "''The cat and the Dog ran''"]
  have x: "extractKeywords ''The cat and the Dog ran'' = [''cat'', ''dog'', ''ran'']"
    and b: "\<forall>k \<in> set (extractKeywords ''The cat and the Dog ran'').
        3 \<le> length k \<and> k \<notin> set stopWords"
    by blast+
  from b m have g: "3 \<le> length ''dog'' \<and> ''dog'' \<notin> set stopWords"
    unfolding x by blast
  have t: "toLowerCase ''My dog ROCKS!'' = ''my dog '' @ ''rocks'' @ ''!''"
    by code_simp
  have h: "3 \<le> length ''rocks'' \<and> (\<forall>c \<in> set ''rocks''. isWordChar c)
      \<and> \<not> atWord (rev ''my dog '') \<and> \<not> atWord ''!'' \<and> ''rocks'' \<notin> set stopWords"
    by code_simp
  from extractKeywords_spec [of "''My dog ROCKS!''"] t h
  have r: "''rocks'' \<in> set (extractKeywords ''My dog ROCKS!'')"
    by blast
  from g r show ?thesis unfolding x by simp
qed

section \<open>Properties of the context assembler\<close>

lemma addFiles_budget:
  "addFiles fs (ctx, remaining) = (ctx', remaining') \<Longrightarrow> 0 \<le> remaining \<Longrightarrow>
   int (length ctx') + remaining' = int (length ctx) + remaining \<and> 0 \<le> remaining'"
proof (induction fs arbitrary: ctx remaining)
  case Nil
  then show ?case by simp
next
  case (Cons f fs)
  obtain fsPath doc where f: "f = (fsPath, doc)" by (cases f)
  show ?case
  proof (cases "remaining < 200")
    case True
    with Cons.prems f show ?thesis by simp
  next
    case False
    show ?thesis
    proof (cases doc)
      case None
      with Cons.prems f False have "addFiles fs (ctx, remaining) = (ctx', remaining')" by simp
      from Cons.IH [OF this Cons.prems(2)] show ?thesis .
    next
      case (Some content)
      let ?section = "[newline] @ ''--- '' @ basename fsPath @ '' ---'' @ [newline]
          @ truncateTo (min (remaining - 50) 800) content @ [newline]"
      show ?thesis
      proof (cases "int (length ?section) \<le> remaining")
        case True
        with Cons.prems f False Some
        have a: "addFiles fs (ctx @ ?section, remaining - int (length ?section)) = (ctx', remaining')"
          by (simp add: Let_def)
        from True have "0 \<le> remaining - int (length ?section)" by simp
        from Cons.IH [OF a this] show ?thesis by simp
      next
        case no: False
        with Cons.prems f False Some
        have "addFiles fs (ctx, remaining) = (ctx', remaining')"
          by (simp add: Let_def)
        from Cons.IH [OF this Cons.prems(2)] show ?thesis .
      qed
    qed
  qed
qed

lemma codebaseContext_length:
  "int (length (getRelevantCodebaseContext h userMsg maxLength)) \<le> max 0 maxLength"
proof (cases "\<not> workspaceFolders h \<or> maxLength < 100")
  case True
  then show ?thesis by (auto simp: getRelevantCodebaseContext_def)
next
  case False
  show ?thesis
  proof (cases "workspaceFiles h")
    case None
    with False show ?thesis by (simp add: getRelevantCodebaseContext_def)
  next
    case (Some files)
    let ?c0 = "''CODEBASE CONTEXT:'' @ [newline]"
    obtain ctx' remaining' where
      a: "addFiles (topFiles userMsg files) (?c0, maxLength - int (length ?c0)) = (ctx', remaining')"
      by (cases "addFiles (topFiles userMsg files) (?c0, maxLength - int (length ?c0))")
    from False have "0 \<le> maxLength - int (length ?c0)" by simp
    from addFiles_budget [OF a this] have "int (length ctx') \<le> maxLength" by simp
    moreover have "getRelevantCodebaseContext h userMsg maxLength = (if 50 < length ctx' then ctx' else [])"
      using False Some a by (simp add: getRelevantCodebaseContext_def)
    ultimately show ?thesis by simp
  qed
qed

lemma codebaseContext_small: "maxLength < 100 \<Longrightarrow> getRelevantCodebaseContext h userMsg maxLength = []"
  by (simp add: getRelevantCodebaseContext_def)

lemma addLine_length:
  "int (length result) \<le> max 0 maxLength \<Longrightarrow> int (length (addLine maxLength result line)) \<le> max 0 maxLength"
  by (simp add: addLine_def)

lemma foldl_addLine_length:
  "int (length result) \<le> max 0 maxLength \<Longrightarrow>
   int (length (foldl (addLine maxLength) result ls)) \<le> max 0 maxLength"
  by (induction ls arbitrary: result) (simp_all add: addLine_length)

lemma relevantContext_length:
  "int (length (getRelevantContext sc history msg maxLength)) \<le> max 0 maxLength"
proof -
  have "int (length (foldl (addLine maxLength) [] ls)) \<le> max 0 maxLength" for ls
    by (rule foldl_addLine_length) simp
  then show ?thesis
    by (simp add: getRelevantContext_def Let_def)
qed

lemma assemblePrompt_bounds:
  fixes sc h chatHistory userMsg
  defines "pr \<equiv> assemblePrompt sc h chatHistory userMsg"
  defines "r0 \<equiv> 12000 - int (length preamble) - int (length userMsg) - 100"
  shows "int (length (codebaseSection pr)) + int (length (currentFileSection pr))
           + int (length (historySection pr)) \<le> max 0 r0"
    and "int (length (contextWindow pr))
           \<le> int (length preamble) + int (length userMsg) + 13 + max 0 r0 + 4"
    and "r0 < 0 \<Longrightarrow> length (contextWindow pr) = length preamble + length userMsg + 13"
proof -
  let ?cb = "getRelevantCodebaseContext h userMsg ((r0 * 3) div 5)"
  let ?r1 = "r0 - int (length ?cb)"
  let ?cf = "getCurrentFileContext h"
  let ?add = "?cf \<noteq> [] \<and> int (length ?cf) + 100 < ?r1"
  let ?r2 = "if ?add then ?r1 - int (length ?cf) else ?r1"
  let ?hist = "getRelevantContext sc chatHistory userMsg ?r2"
  have cbs: "codebaseSection pr = ?cb"
    and cfs: "currentFileSection pr = (if ?add then ?cf else [])"
    and hs: "historySection pr = ?hist"
    and cw: "contextWindow pr = preamble @ (if ?cb \<noteq> [] then ?cb @ [newline, newline] else [])
        @ (if ?add then ?cf @ [newline, newline] else [])
        @ ?hist @ [newline] @ ''User: '' @ userMsg @ [newline] @ ''AICA:''"
    by (auto simp: pr_def r0_def assemblePrompt_def Let_def)
  have cb: "int (length ?cb) \<le> max 0 ((r0 * 3) div 5)"
    by (rule codebaseContext_length)
  have cb0: "r0 < 0 \<Longrightarrow> ?cb = []"
    by (rule codebaseContext_small) simp
  have cbr: "int (length ?cb) \<le> max 0 r0"
    using cb by (cases "r0 < 0") (simp_all add: cb0)
  have hist: "int (length ?hist) \<le> max 0 ?r2"
    by (rule relevantContext_length)
  show s: "int (length (codebaseSection pr)) + int (length (currentFileSection pr))
           + int (length (historySection pr)) \<le> max 0 r0"
  proof (cases "r0 < 0")
    case True
    with cb0 hist show ?thesis by (simp add: cbs cfs hs)
  next
    case False
    with cbr have "0 \<le> ?r1" by simp
    with hist False show ?thesis by (auto simp: cbs cfs hs split: if_splits)
  qed
  have len: "int (length (contextWindow pr))
      \<le> int (length preamble) + int (length userMsg) + 13
          + (int (length (codebaseSection pr)) + int (length (currentFileSection pr))
             + int (length (historySection pr))) + 4"
    by (simp add: cw cbs cfs hs)
  with s show "int (length (contextWindow pr))
           \<le> int (length preamble) + int (length userMsg) + 13 + max 0 r0 + 4"
    by linarith
  show "length (contextWindow pr) = length preamble + length userMsg + 13" if "r0 < 0"
  proof -
    from that cb0 have e: "?cb = []" by simp
    with that have na: "\<not> ?add" by simp
    with e that hist have "?hist = []" by simp
    with e na show ?thesis by (simp add: cw)
  qed
qed

text \<open>
  C2, as the code has it. The assembler reserves the user message's length in its budget
  and never cuts the message. For a user message of at most 11990 characters the prompt
  is no longer than the window of 12000 characters plus the preamble plus the three
  characters of a truncation marker, whatever the history, the workspace and the open
  file hold; in general it is no longer than the larger of 11917 and the preamble, the
  message and the thirteen characters around it. The sections the assembler includes
  (codebase context, current file, history) never add up to more than 12000 characters.
\<close>

theorem prompt_budget:
  "(length userMsg \<le> 11990 \<longrightarrow>
      length (buildChatPrompt scoreLineRelevance h chatHistory userMsg)
        \<le> 12000 + length preamble + length ''...'')
   \<and> length (buildChatPrompt scoreLineRelevance h chatHistory userMsg)
        \<le> max 11917 (length preamble + length userMsg + 13)
   \<and> length (codebaseSection (assemblePrompt scoreLineRelevance h chatHistory userMsg))
      + length (currentFileSection (assemblePrompt scoreLineRelevance h chatHistory userMsg))
      + length (historySection (assemblePrompt scoreLineRelevance h chatHistory userMsg))
        \<le> 12000"
proof -
  let ?pr = "assemblePrompt scoreLineRelevance h chatHistory userMsg"
  let ?r0 = "12000 - int (length preamble) - int (length userMsg) - 100"
  note b = assemblePrompt_bounds [where sc = scoreLineRelevance and h = h
      and chatHistory = chatHistory and userMsg = userMsg]
  have w: "int (length (contextWindow ?pr)) \<le> max 11917 (int (length preamble) + int (length userMsg) + 13)"
  proof (cases "?r0 < 0")
    case True
    from b(3) [OF True] show ?thesis by simp
  next
    case False
    with b(2) show ?thesis by simp
  qed
  then have g: "length (buildChatPrompt scoreLineRelevance h chatHistory userMsg)
      \<le> max 11917 (length preamble + length userMsg + 13)"
    by (simp add: buildChatPrompt_def)
  have s: "length (codebaseSection ?pr) + length (currentFileSection ?pr) + length (historySection ?pr)
      \<le> 12000"
    using b(1) by linarith
  from g have "length userMsg \<le> 11990 \<Longrightarrow>
      length (buildChatPrompt scoreLineRelevance h chatHistory userMsg)
        \<le> 12000 + length preamble + length ''...''"
    by simp
  with g s show ?thesis by blast
qed

theorem prompt_budget_witness:
  "length (buildChatPrompt (\<lambda>line keywords index total. real index)
      \<lparr>workspaceFolders = True,
       workspaceFiles = Some [(''/w/readme.md'', Some ''hello''), (''/w/src/parser.ts'', Some ''code'')],
       activeTextEditor = Some (''/w/x.ts'', ''content'')\<rparr>
      [''User: hi'', ''AICA: hello''] ''fix the bug in parser.ts'')
    \<le> 12000 + length preamble + 3"
proof -
  have "length ''fix the bug in parser.ts'' \<le> 11990" by simp
  with prompt_budget [of "''fix the bug in parser.ts''" "\<lambda>line keywords index total. real index"
      "\<lparr>workspaceFolders = True,
       workspaceFiles = Some [(''/w/readme.md'', Some ''hello''), (''/w/src/parser.ts'', Some ''code'')],
       activeTextEditor = Some (''/w/x.ts'', ''content'')\<rparr>" "[''User: hi'', ''AICA: hello'']"]
  show ?thesis by simp
qed

text \<open>
  A user message of 11991 characters, with no workspace, no open file and no history:
  the prompt is the preamble, the message and the thirteen characters around it, four
  characters over the window plus the preamble.
\<close>

theorem prompt_budget_counterexample:
  "length (buildChatPrompt (\<lambda>line keywords index total. 0)
      \<lparr>workspaceFolders = False, workspaceFiles = None, activeTextEditor = None\<rparr>
      [] (replicate 11991 (CHR ''a'')))
    = 12000 + length preamble + 4"
  by (simp add: buildChatPrompt_def assemblePrompt_def getRelevantCodebaseContext_def
      getCurrentFileContext_def getRelevantContext_def Let_def)

end
